theory Spec2Isabelle
  imports Main "HOL-Library.Word"
begin

section \<open>Python values, exceptions and byte strings\<close>

text \<open>
  The program is \<^verbatim>\<open>userassist-parser.py\<close>. Python integers are unbounded and are
  modelled as \<open>int\<close>. A \<^verbatim>\<open>str\<close> is held as the list of its UTF-8 bytes (\<open>string\<close>); a
  \<^verbatim>\<open>bytes\<close> object is a list of 8-bit words. A Python function that may raise returns
  \<open>exn + 'a\<close>, with \<open>Inl\<close> for the exception that leaves it. Output written with
  \<^verbatim>\<open>print\<close> is not modelled.
\<close>

datatype exn =
    StructError
  | OverflowError
  | KeyError
  | OSError
  | RegistryKeyNotFoundException
  | RegistryValueNotFoundException

datatype pyval = PyInt int | PyStr string

type_synonym byte = "8 word"

type_synonym pydict = "(string \<times> pyval) list"

text \<open>\<^verbatim>\<open>d.get(key, default)\<close> on a dictionary held in insertion order.\<close>

definition dict_get :: "pydict \<Rightarrow> string \<Rightarrow> pyval \<Rightarrow> pyval" where
  "dict_get d key dflt = (case map_of d key of None \<Rightarrow> dflt | Some v \<Rightarrow> v)"

text \<open>\<^verbatim>\<open>d[key]\<close>: a missing key is a \<^verbatim>\<open>KeyError\<close>.\<close>

definition dict_getitem :: "pydict \<Rightarrow> string \<Rightarrow> exn + pyval" where
  "dict_getitem d key = (case map_of d key of None \<Rightarrow> Inl KeyError | Some v \<Rightarrow> Inr v)"

text \<open>\<^verbatim>\<open>data[i:j]\<close> for \<open>0 \<le> i \<le> j\<close>: a slice is cut off at the end of the sequence.\<close>

definition slice :: "'a list \<Rightarrow> nat \<Rightarrow> nat \<Rightarrow> 'a list" where
  "slice xs i j = take (j - i) (drop i xs)"

section \<open>The \<^verbatim>\<open>struct\<close> module: little-endian unsigned integers\<close>

definition int_from_bytes_little :: "byte list \<Rightarrow> int" where
  "int_from_bytes_little bs = foldr (\<lambda>b acc. uint b + 256 * acc) bs 0"

definition int_to_bytes_little :: "nat \<Rightarrow> int \<Rightarrow> byte list" where
  "int_to_bytes_little sz x = map (\<lambda>i. word_of_int (x div 256 ^ i)) [0..<sz]"

text \<open>
  \<^verbatim>\<open>struct.unpack(fmt, buffer)[0]\<close> for a format of one unsigned field of \<open>sz\<close>
  bytes: \<^verbatim>\<open>struct.error\<close> unless the buffer has exactly that many bytes.
\<close>

definition struct_unpack_uint :: "nat \<Rightarrow> byte list \<Rightarrow> exn + int" where
  "struct_unpack_uint sz buffer =
     (if length buffer = sz then Inr (int_from_bytes_little buffer) else Inl StructError)"

text \<open>\<^verbatim>\<open>struct.pack(fmt, x)\<close>: \<^verbatim>\<open>struct.error\<close> when \<open>x\<close> is out of the field's range.\<close>

definition struct_pack_uint :: "nat \<Rightarrow> int \<Rightarrow> exn + byte list" where
  "struct_pack_uint sz x =
     (if 0 \<le> x \<and> x < 256 ^ sz then Inr (int_to_bytes_little sz x) else Inl StructError)"

text \<open>The formats \<^verbatim>\<open>"<I"\<close> (4 bytes) and \<^verbatim>\<open>"<Q"\<close> (8 bytes).\<close>

definition struct_unpack_I :: "byte list \<Rightarrow> exn + int" where
  "struct_unpack_I buffer = struct_unpack_uint 4 buffer"

definition struct_unpack_Q :: "byte list \<Rightarrow> exn + int" where
  "struct_unpack_Q buffer = struct_unpack_uint 8 buffer"

definition struct_pack_Q :: "int \<Rightarrow> exn + byte list" where
  "struct_pack_Q x = struct_pack_uint 8 x"

section \<open>The \<^verbatim>\<open>rot_13\<close> codec\<close>

text \<open>
  \<^verbatim>\<open>encodings/rot_13.py\<close>: the identity on the code points below 256, updated at the
  52 ASCII letters. \<^verbatim>\<open>str.translate\<close> leaves a character with no entry as it is. Every
  entry that changes a character is ASCII, so translating the UTF-8 bytes one by one
  is translating the code points.
\<close>

definition rot13_map :: "(char \<times> char) list" where
  "rot13_map =
    [(CHR ''A'', CHR ''N''), (CHR ''B'', CHR ''O''), (CHR ''C'', CHR ''P''), (CHR ''D'', CHR ''Q''),
     (CHR ''E'', CHR ''R''), (CHR ''F'', CHR ''S''), (CHR ''G'', CHR ''T''), (CHR ''H'', CHR ''U''),
     (CHR ''I'', CHR ''V''), (CHR ''J'', CHR ''W''), (CHR ''K'', CHR ''X''), (CHR ''L'', CHR ''Y''),
     (CHR ''M'', CHR ''Z''), (CHR ''N'', CHR ''A''), (CHR ''O'', CHR ''B''), (CHR ''P'', CHR ''C''),
     (CHR ''Q'', CHR ''D''), (CHR ''R'', CHR ''E''), (CHR ''S'', CHR ''F''), (CHR ''T'', CHR ''G''),
     (CHR ''U'', CHR ''H''), (CHR ''V'', CHR ''I''), (CHR ''W'', CHR ''J''), (CHR ''X'', CHR ''K''),
     (CHR ''Y'', CHR ''L''), (CHR ''Z'', CHR ''M''),
     (CHR ''a'', CHR ''n''), (CHR ''b'', CHR ''o''), (CHR ''c'', CHR ''p''), (CHR ''d'', CHR ''q''),
     (CHR ''e'', CHR ''r''), (CHR ''f'', CHR ''s''), (CHR ''g'', CHR ''t''), (CHR ''h'', CHR ''u''),
     (CHR ''i'', CHR ''v''), (CHR ''j'', CHR ''w''), (CHR ''k'', CHR ''x''), (CHR ''l'', CHR ''y''),
     (CHR ''m'', CHR ''z''), (CHR ''n'', CHR ''a''), (CHR ''o'', CHR ''b''), (CHR ''p'', CHR ''c''),
     (CHR ''q'', CHR ''d''), (CHR ''r'', CHR ''e''), (CHR ''s'', CHR ''f''), (CHR ''t'', CHR ''g''),
     (CHR ''u'', CHR ''h''), (CHR ''v'', CHR ''i''), (CHR ''w'', CHR ''j''), (CHR ''x'', CHR ''k''),
     (CHR ''y'', CHR ''l''), (CHR ''z'', CHR ''m'')]"

definition translate_char :: "(char \<times> char) list \<Rightarrow> char \<Rightarrow> char" where
  "translate_char table c = (case map_of table c of None \<Rightarrow> c | Some c' \<Rightarrow> c')"

definition str_translate :: "string \<Rightarrow> (char \<times> char) list \<Rightarrow> string" where
  "str_translate input table = map (translate_char table) input"

definition rot13_decode :: "string \<Rightarrow> string" where
  "rot13_decode encoded_string = str_translate encoded_string rot13_map"

section \<open>The \<^verbatim>\<open>datetime\<close> module\<close>

text \<open>
  What the converters use of \<^verbatim>\<open>datetime\<close> and \<^verbatim>\<open>timedelta\<close>, on integer arguments, after
  CPython's \<^verbatim>\<open>Lib/_pydatetime.py\<close>; the C implementation computes the same values and
  raises the same \<^verbatim>\<open>OverflowError\<close>.
\<close>

subsection \<open>The proleptic Gregorian calendar\<close>

definition MAXORDINAL :: int where
  "MAXORDINAL = 3652059"

definition DAYS_IN_MONTH :: "int list" where
  "DAYS_IN_MONTH = [-1, 31, 28, 31, 30, 31, 30, 31, 31, 30, 31, 30, 31]"

definition DAYS_BEFORE_MONTH :: "int list" where
  "DAYS_BEFORE_MONTH = [-1, 0, 31, 59, 90, 120, 151, 181, 212, 243, 273, 304, 334]"

definition is_leap :: "int \<Rightarrow> bool" where
  "is_leap y = (y mod 4 = 0 \<and> (y mod 100 \<noteq> 0 \<or> y mod 400 = 0))"

definition days_before_year :: "int \<Rightarrow> int" where
  "days_before_year yr = (let y = yr - 1 in y * 365 + y div 4 - y div 100 + y div 400)"

definition days_in_month :: "int \<Rightarrow> int \<Rightarrow> int" where
  "days_in_month yr mo = (if mo = 2 \<and> is_leap yr then 29 else DAYS_IN_MONTH ! nat mo)"

definition days_before_month :: "int \<Rightarrow> int \<Rightarrow> int" where
  "days_before_month yr mo =
     DAYS_BEFORE_MONTH ! nat mo + (if mo > 2 \<and> is_leap yr then 1 else 0)"

definition ymd2ord :: "int \<Rightarrow> int \<Rightarrow> int \<Rightarrow> int" where
  "ymd2ord yr mo dy = days_before_year yr + days_before_month yr mo + dy"

definition DI400Y :: int where
  "DI400Y = days_before_year 401"

definition DI100Y :: int where
  "DI100Y = days_before_year 101"

definition DI4Y :: int where
  "DI4Y = days_before_year 5"

definition ord2ymd :: "int \<Rightarrow> int \<times> int \<times> int" where
  "ord2ymd n =
     (let n0 = n - 1;
          n400 = n0 div DI400Y; n1' = n0 mod DI400Y;
          n100 = n1' div DI100Y; n2' = n1' mod DI100Y;
          n4 = n2' div DI4Y; n3' = n2' mod DI4Y;
          n1 = n3' div 365; n4' = n3' mod 365;
          yr = n400 * 400 + 1 + (n100 * 100 + n4 * 4 + n1)
      in if n1 = 4 \<or> n100 = 4 then (yr - 1, 12, 31)
         else
           let leapyear = (n1 = 3 \<and> (n4 \<noteq> 24 \<or> n100 = 3));
               mo = (n4' + 50) div 32;
               preceding = DAYS_BEFORE_MONTH ! nat mo + (if mo > 2 \<and> leapyear then 1 else 0)
           in if preceding > n4'
              then let mo' = mo - 1;
                       preceding' = preceding -
                         (DAYS_IN_MONTH ! nat mo' + (if mo' = 2 \<and> leapyear then 1 else 0))
                   in (yr, mo', n4' - preceding' + 1)
              else (yr, mo, n4' - preceding + 1))"

subsection \<open>\<^verbatim>\<open>timedelta\<close>\<close>

record timedelta =
  td_days :: int
  td_seconds :: int
  td_microseconds :: int

text \<open>
  The constructor on integer arguments: everything is normalised to days, seconds
  \<open>0 \<le> s < 86400\<close> and microseconds \<open>0 \<le> us < 1000000\<close>; more than 999999999 days
  either way is an \<^verbatim>\<open>OverflowError\<close>.
\<close>

definition timedelta_new ::
  "int \<Rightarrow> int \<Rightarrow> int \<Rightarrow> int \<Rightarrow> int \<Rightarrow> int \<Rightarrow> int \<Rightarrow> exn + timedelta" where
  "timedelta_new days seconds microseconds milliseconds minutes hours weeks =
     (let days1 = days + weeks * 7;
          seconds1 = seconds + (minutes * 60 + hours * 3600);
          microseconds1 = microseconds + milliseconds * 1000;
          d = days1;
          d = d + seconds1 div (24 * 3600);
          s = seconds1 mod (24 * 3600);
          seconds2 = microseconds1 div 1000000;
          microseconds2 = microseconds1 mod 1000000;
          d = d + seconds2 div (24 * 3600);
          s = s + seconds2 mod (24 * 3600);
          s = s + microseconds2 div 1000000;
          us = microseconds2 mod 1000000;
          d = d + s div (24 * 3600);
          s = s mod (24 * 3600)
      in if \<bar>d\<bar> > 999999999 then Inl OverflowError
         else Inr \<lparr>td_days = d, td_seconds = s, td_microseconds = us\<rparr>)"

definition timedelta_add :: "timedelta \<Rightarrow> timedelta \<Rightarrow> exn + timedelta" where
  "timedelta_add a b =
     timedelta_new (td_days a + td_days b) (td_seconds a + td_seconds b)
       (td_microseconds a + td_microseconds b) 0 0 0 0"

subsection \<open>\<^verbatim>\<open>datetime\<close>\<close>

record datetime =
  dt_year :: int
  dt_month :: int
  dt_day :: int
  dt_hour :: int
  dt_minute :: int
  dt_second :: int
  dt_microsecond :: int

text \<open>\<^verbatim>\<open>datetime(year, month, day)\<close> at valid constant arguments.\<close>

definition datetime_new :: "int \<Rightarrow> int \<Rightarrow> int \<Rightarrow> datetime" where
  "datetime_new yr mo dy =
     \<lparr>dt_year = yr, dt_month = mo, dt_day = dy,
      dt_hour = 0, dt_minute = 0, dt_second = 0, dt_microsecond = 0\<rparr>"

definition toordinal :: "datetime \<Rightarrow> int" where
  "toordinal self = ymd2ord (dt_year self) (dt_month self) (dt_day self)"

text \<open>\<^verbatim>\<open>datetime.__add__\<close>: the sum is rebuilt from its ordinal day, or is out of range.\<close>

definition datetime_add :: "datetime \<Rightarrow> timedelta \<Rightarrow> exn + datetime" where
  "datetime_add self other =
     (case timedelta_new (toordinal self) (dt_second self) (dt_microsecond self) 0
             (dt_minute self) (dt_hour self) 0 of
        Inl e \<Rightarrow> Inl e
      | Inr delta0 \<Rightarrow>
          (case timedelta_add delta0 other of
             Inl e \<Rightarrow> Inl e
           | Inr delta \<Rightarrow>
               (let hr = td_seconds delta div 3600; rem = td_seconds delta mod 3600;
                    mi = rem div 60; sec = rem mod 60
                in if 0 < td_days delta \<and> td_days delta \<le> MAXORDINAL
                   then (case ord2ymd (td_days delta) of
                           (y, m, d) \<Rightarrow>
                             Inr \<lparr>dt_year = y, dt_month = m, dt_day = d, dt_hour = hr,
                                  dt_minute = mi, dt_second = sec,
                                  dt_microsecond = td_microseconds delta\<rparr>)
                   else Inl OverflowError)))"

subsection \<open>\<^verbatim>\<open>strftime('%Y-%m-%d %H:%M:%S')\<close>\<close>

definition digit_char :: "int \<Rightarrow> char" where
  "digit_char d = ''0123456789'' ! nat d"

text \<open>
  A number in two and in four decimal digits, filled with zeros on the left. A year from
  1000 on has four digits on every platform; below 1000 the C library decides whether
  \<^verbatim>\<open>%Y\<close> is filled, and the model fills it. The converters reach such a year only from a
  negative number of milliseconds.
\<close>

definition pad2 :: "int \<Rightarrow> string" where
  "pad2 n = [digit_char (n div 10 mod 10), digit_char (n mod 10)]"

definition pad4 :: "int \<Rightarrow> string" where
  "pad4 n = [digit_char (n div 1000 mod 10), digit_char (n div 100 mod 10),
             digit_char (n div 10 mod 10), digit_char (n mod 10)]"

definition format_ymd_hms :: "int \<Rightarrow> int \<Rightarrow> int \<Rightarrow> int \<Rightarrow> int \<Rightarrow> int \<Rightarrow> string" where
  "format_ymd_hms y m d hr mi sec =
     pad4 y @ ''-'' @ pad2 m @ ''-'' @ pad2 d @ '' '' @ pad2 hr @ '':'' @ pad2 mi @ '':'' @ pad2 sec"

definition strftime :: "datetime \<Rightarrow> string" where
  "strftime self =
     format_ymd_hms (dt_year self) (dt_month self) (dt_day self)
       (dt_hour self) (dt_minute self) (dt_second self)"

section \<open>Timestamp converters\<close>

text \<open>The body of the \<^verbatim>\<open>try\<close> block of \<^verbatim>\<open>convert_filetime\<close>.\<close>

definition convert_filetime_try :: "int \<Rightarrow> exn + string" where
  "convert_filetime_try filetime =
     (case struct_pack_Q filetime of
        Inl e \<Rightarrow> Inl e
      | Inr packed \<Rightarrow>
          (case struct_unpack_Q packed of
             Inl e \<Rightarrow> Inl e
           | Inr filetime' \<Rightarrow>
               (let microseconds = filetime' div 10
                in if microseconds = 0 then Inr ''Never''
                   else
                     (let windows_epoch = datetime_new 1601 1 1
                      in case timedelta_new 0 0 microseconds 0 0 0 0 of
                           Inl e \<Rightarrow> Inl e
                         | Inr delta \<Rightarrow>
                             (case datetime_add windows_epoch delta of
                                Inl e \<Rightarrow> Inl e
                              | Inr timestamp \<Rightarrow> Inr (strftime timestamp))))))"

text \<open>\<^verbatim>\<open>except Exception\<close> catches whatever the body raises.\<close>

definition convert_filetime :: "int \<Rightarrow> exn + string" where
  "convert_filetime filetime =
     (if filetime = 0 then Inr ''Never''
      else case convert_filetime_try filetime of
             Inl e \<Rightarrow> Inr ''Invalid timestamp''
           | Inr s \<Rightarrow> Inr s)"

definition convert_focus_time_to_utc_try :: "int \<Rightarrow> exn + string" where
  "convert_focus_time_to_utc_try milliseconds =
     (if milliseconds = 0 then Inr ''Never''
      else
        (let unix_epoch = datetime_new 1970 1 1
         in case timedelta_new 0 0 0 milliseconds 0 0 0 of
              Inl e \<Rightarrow> Inl e
            | Inr delta \<Rightarrow>
                (case datetime_add unix_epoch delta of
                   Inl e \<Rightarrow> Inl e
                 | Inr timestamp \<Rightarrow> Inr (strftime timestamp))))"

definition convert_focus_time_to_utc :: "int \<Rightarrow> exn + string" where
  "convert_focus_time_to_utc milliseconds =
     (case convert_focus_time_to_utc_try milliseconds of
        Inl e \<Rightarrow> Inr ''Invalid focus time''
      | Inr s \<Rightarrow> Inr s)"

section \<open>Entry decoder\<close>

text \<open>The body of the \<^verbatim>\<open>try\<close> block for the Windows 7+ layout.\<close>

definition parse_userassist_entry_win7_try :: "byte list \<Rightarrow> exn + pydict option" where
  "parse_userassist_entry_win7_try data =
     (if length data \<ge> 72 then
        (case struct_unpack_I (slice data 4 8) of
           Inl e \<Rightarrow> Inl e
         | Inr count \<Rightarrow>
        (case struct_unpack_I (slice data 12 16) of
           Inl e \<Rightarrow> Inl e
         | Inr focus_time \<Rightarrow>
        (case struct_unpack_Q (slice data 60 68) of
           Inl e \<Rightarrow> Inl e
         | Inr last_execution \<Rightarrow>
        (case convert_focus_time_to_utc focus_time of
           Inl e \<Rightarrow> Inl e
         | Inr focus_time_utc \<Rightarrow>
        (case convert_filetime last_execution of
           Inl e \<Rightarrow> Inl e
         | Inr last_execution_utc \<Rightarrow>
             Inr (Some [(''count'', PyInt count),
                        (''focus_time'', PyStr focus_time_utc),
                        (''last_execution'', PyStr last_execution_utc)]))))))
      else Inr None)"

text \<open>The body of the \<^verbatim>\<open>try\<close> block for the XP layout.\<close>

definition parse_userassist_entry_xp_try :: "byte list \<Rightarrow> exn + pydict option" where
  "parse_userassist_entry_xp_try data =
     (if length data \<ge> 16 then
        (case struct_unpack_I (slice data 4 8) of
           Inl e \<Rightarrow> Inl e
         | Inr count \<Rightarrow>
        (case struct_unpack_Q (slice data 8 16) of
           Inl e \<Rightarrow> Inl e
         | Inr last_execution \<Rightarrow>
        (case convert_filetime last_execution of
           Inl e \<Rightarrow> Inl e
         | Inr last_execution_utc \<Rightarrow>
             Inr (Some [(''count'', PyInt count),
                        (''last_execution'', PyStr last_execution_utc)]))))
      else Inr None)"

text \<open>
  \<^verbatim>\<open>except struct.error: ... return None\<close> around a body: that exception becomes the
  result \<^verbatim>\<open>None\<close>, any other exception leaves the function.
\<close>

definition except_struct_error :: "exn + 'a option \<Rightarrow> exn + 'a option" where
  "except_struct_error body =
     (case body of
        Inl StructError \<Rightarrow> Inr None
      | Inl e \<Rightarrow> Inl e
      | Inr r \<Rightarrow> Inr r)"

definition parse_userassist_entry :: "byte list \<Rightarrow> bool \<Rightarrow> exn + pydict option" where
  "parse_userassist_entry data win7_format =
     (if win7_format then except_struct_error (parse_userassist_entry_win7_try data)
      else except_struct_error (parse_userassist_entry_xp_try data))"

section \<open>The registry hive, as the driver reads it\<close>

text \<open>
  The hive reader (\<^verbatim>\<open>python-registry\<close>) is not part of the repository. It is
  modelled by what the driver asks of it: the \<^verbatim>\<open>UserAssist\<close> key with its GUID subkeys,
  each with an optional integer \<^verbatim>\<open>Version\<close> value and an optional \<^verbatim>\<open>Count\<close> subkey whose
  values carry a name and raw bytes. A key or value that is absent raises the reader's
  not-found exception.
\<close>

record reg_value =
  rv_name :: string
  rv_data :: "byte list"

record guid_key =
  gk_name :: string
  gk_version :: "int option"
  gk_count :: "reg_value list option"

record registry =
  reg_userassist :: "guid_key list option"

text \<open>\<^verbatim>\<open>registry.open(r"Software\...\UserAssist")\<close> followed by \<^verbatim>\<open>.subkeys()\<close>.\<close>

definition registry_open_userassist :: "registry \<Rightarrow> exn + guid_key list" where
  "registry_open_userassist reg =
     (case reg_userassist reg of
        None \<Rightarrow> Inl RegistryKeyNotFoundException
      | Some subkeys \<Rightarrow> Inr subkeys)"

text \<open>\<^verbatim>\<open>guid_key.value("Version").value()\<close>.\<close>

definition key_value_version :: "guid_key \<Rightarrow> exn + int" where
  "key_value_version k =
     (case gk_version k of
        None \<Rightarrow> Inl RegistryValueNotFoundException
      | Some v \<Rightarrow> Inr v)"

text \<open>\<^verbatim>\<open>guid_key.subkey("Count")\<close> followed by \<^verbatim>\<open>.values()\<close>.\<close>

definition key_subkey_count :: "guid_key \<Rightarrow> exn + reg_value list" where
  "key_subkey_count k =
     (case gk_count k of
        None \<Rightarrow> Inl RegistryKeyNotFoundException
      | Some vs \<Rightarrow> Inr vs)"

section \<open>Aggregation driver\<close>

text \<open>
  Lines 144 to 148 of \<^verbatim>\<open>parse_userassist\<close>: the value assigned to \<^verbatim>\<open>win7_format\<close>.
  \<open>True\<close> is the Windows 7+ (Modern) layout, \<open>False\<close> the XP (Legacy) one.
\<close>

definition select_win7_format :: "guid_key \<Rightarrow> exn + bool" where
  "select_win7_format k =
     (case key_value_version k of
        Inl RegistryValueNotFoundException \<Rightarrow> Inr False
      | Inl e \<Rightarrow> Inl e
      | Inr version_value \<Rightarrow> Inr (version_value \<ge> 5))"

text \<open>Lines 164 to 172: the dictionary built for one decoded value.\<close>

definition make_entry :: "string \<Rightarrow> string \<Rightarrow> string \<Rightarrow> string \<Rightarrow> pydict \<Rightarrow> exn + pydict" where
  "make_entry username decoded_name guid ntuser_path parsed_data =
     (case dict_getitem parsed_data ''last_execution'' of
        Inl e \<Rightarrow> Inl e
      | Inr last_execution \<Rightarrow>
     (case dict_getitem parsed_data ''count'' of
        Inl e \<Rightarrow> Inl e
      | Inr count \<Rightarrow>
          Inr [(''username'', PyStr username),
               (''name'', PyStr decoded_name),
               (''last_execution'', last_execution),
               (''guid'', PyStr guid),
               (''count'', count),
               (''focus_time'', dict_get parsed_data ''focus_time'' (PyStr ''N/A'')),
               (''source_file'', PyStr ntuser_path)]))"

text \<open>
  The loop over \<^verbatim>\<open>count_key.values()\<close>. It returns the list \<^verbatim>\<open>userassist_data\<close> as
  it stands when the loop ends, and the exception that ended it, if one did.
\<close>

fun count_values_loop ::
  "string \<Rightarrow> string \<Rightarrow> string \<Rightarrow> bool \<Rightarrow> reg_value list \<Rightarrow> pydict list
     \<Rightarrow> pydict list \<times> exn option" where
  "count_values_loop username guid ntuser_path win7_format [] userassist_data =
     (userassist_data, None)"
| "count_values_loop username guid ntuser_path win7_format (v # rest) userassist_data =
     (let name = rv_name v; data = rv_data v
      in if data = []
         then count_values_loop username guid ntuser_path win7_format rest userassist_data
         else
           (let decoded_name = rot13_decode name
            in case parse_userassist_entry data win7_format of
                 Inl e \<Rightarrow> (userassist_data, Some e)
               | Inr None \<Rightarrow>
                   count_values_loop username guid ntuser_path win7_format rest userassist_data
               | Inr (Some parsed_data) \<Rightarrow>
                   (if parsed_data = []
                    then count_values_loop username guid ntuser_path win7_format rest
                           userassist_data
                    else
                      (case make_entry username decoded_name guid ntuser_path parsed_data of
                         Inl e \<Rightarrow> (userassist_data, Some e)
                       | Inr entry \<Rightarrow>
                           count_values_loop username guid ntuser_path win7_format rest
                             (userassist_data @ [entry])))))"

text \<open>
  The loop over \<^verbatim>\<open>userassist_key.subkeys()\<close>. A missing \<^verbatim>\<open>Count\<close> subkey skips the GUID.
\<close>

fun guid_keys_loop ::
  "string \<Rightarrow> string \<Rightarrow> guid_key list \<Rightarrow> pydict list \<Rightarrow> pydict list \<times> exn option" where
  "guid_keys_loop username ntuser_path [] userassist_data = (userassist_data, None)"
| "guid_keys_loop username ntuser_path (k # rest) userassist_data =
     (let guid = gk_name k
      in case select_win7_format k of
           Inl e \<Rightarrow> (userassist_data, Some e)
         | Inr win7_format \<Rightarrow>
             (case key_subkey_count k of
                Inl RegistryKeyNotFoundException \<Rightarrow>
                  guid_keys_loop username ntuser_path rest userassist_data
              | Inl e \<Rightarrow> (userassist_data, Some e)
              | Inr count_values \<Rightarrow>
                  (case count_values_loop username guid ntuser_path win7_format count_values
                          userassist_data of
                     (userassist_data', None) \<Rightarrow>
                       guid_keys_loop username ntuser_path rest userassist_data'
                   | (userassist_data', Some RegistryKeyNotFoundException) \<Rightarrow>
                       guid_keys_loop username ntuser_path rest userassist_data'
                   | (userassist_data', Some e) \<Rightarrow> (userassist_data', Some e))))"

text \<open>
  \<^verbatim>\<open>parse_userassist(ntuser_path)\<close>. \<open>hive\<close> is what \<^verbatim>\<open>Registry.Registry(ntuser_path)\<close>
  gives (the opened hive, or the exception it raises) and \<open>username\<close> is
  \<^verbatim>\<open>Path(ntuser_path).parent.name\<close>. A missing \<^verbatim>\<open>UserAssist\<close> key and any other
  exception both end in \<^verbatim>\<open>None\<close>.
\<close>

definition parse_userassist :: "string \<Rightarrow> string \<Rightarrow> exn + registry \<Rightarrow> pydict list option" where
  "parse_userassist ntuser_path username hive =
     (case hive of
        Inl e \<Rightarrow> None
      | Inr reg \<Rightarrow>
          (case registry_open_userassist reg of
             Inl e \<Rightarrow> None
           | Inr subkeys \<Rightarrow>
               (case guid_keys_loop username ntuser_path subkeys [] of
                  (userassist_data, None) \<Rightarrow> Some userassist_data
                | (userassist_data, Some e) \<Rightarrow> None)))"

section \<open>Notions the properties are stated with\<close>

text \<open>
  The unsigned little-endian value of the bytes \<open>[i, j)\<close> of a blob: byte \<open>i + k\<close> has
  weight \<open>256 ^ k\<close>.
\<close>

definition le_field :: "byte list \<Rightarrow> nat \<Rightarrow> nat \<Rightarrow> int" where
  "le_field data i j = (\<Sum>k\<leftarrow>[0..<j - i]. uint (data ! (i + k)) * 256 ^ k)"

text \<open>The letters the \<^verbatim>\<open>rot_13\<close> table is about, in alphabetical order.\<close>

definition ascii_uppercase :: string where
  "ascii_uppercase = ''ABCDEFGHIJKLMNOPQRSTUVWXYZ''"

definition ascii_lowercase :: string where
  "ascii_lowercase = ''abcdefghijklmnopqrstuvwxyz''"

text \<open>
  The month and day part of \<open>ord2ymd\<close>, from the day's offset in its year, and what is
  proved of it.
\<close>

definition month_day_of :: "bool \<Rightarrow> int \<Rightarrow> int \<times> int" where
  "month_day_of leapyear n =
     (let mo = (n + 50) div 32;
          preceding = DAYS_BEFORE_MONTH ! nat mo + (if mo > 2 \<and> leapyear then 1 else 0)
      in if preceding > n
         then let mo' = mo - 1;
                  preceding' = preceding -
                    (DAYS_IN_MONTH ! nat mo' + (if mo' = 2 \<and> leapyear then 1 else 0))
              in (mo', n - preceding' + 1)
         else (mo, n - preceding + 1))"

definition month_ok :: "bool \<Rightarrow> int \<Rightarrow> int \<times> int \<Rightarrow> bool" where
  "month_ok L r md = (case md of (m, d) \<Rightarrow>
     1 \<le> m \<and> m \<le> 12 \<and> 1 \<le> d
     \<and> d \<le> DAYS_IN_MONTH ! nat m + (if m = 2 \<and> L then 1 else 0)
     \<and> DAYS_BEFORE_MONTH ! nat m + (if m > 2 \<and> L then 1 else 0) + d = r + 1)"

text \<open>
  The Gregorian calendar by counting: a year is a leap year when it is divisible by 4,
  unless it is divisible by 100 and not by 400; the days from 0001-01-01 to a date are
  the lengths of the years and months before it, and the days before it in its month.
\<close>

definition leap_year :: "int \<Rightarrow> bool" where
  "leap_year y = (4 dvd y \<and> (\<not> 100 dvd y \<or> 400 dvd y))"

definition year_length :: "int \<Rightarrow> int" where
  "year_length y = (if leap_year y then 366 else 365)"

definition month_length :: "int \<Rightarrow> int \<Rightarrow> int" where
  "month_length y m =
     (if m = 2 then (if leap_year y then 29 else 28)
      else if m = 4 \<or> m = 6 \<or> m = 9 \<or> m = 11 then 30
      else 31)"

definition days_from_civil :: "int \<Rightarrow> int \<Rightarrow> int \<Rightarrow> int" where
  "days_from_civil y m d =
     (\<Sum>k\<leftarrow>[1..y - 1]. year_length k) + (\<Sum>j\<leftarrow>[1..m - 1]. month_length y j) + (d - 1)"

text \<open>
  Reading a timestamp \<^verbatim>\<open>YYYY-MM-DD HH:MM:SS\<close> back: its six decimal fields, whether
  they name a date and time of day of the years 1 to 9999, and the instant it names in
  seconds since 0001-01-01 00:00:00.
\<close>

definition digit_value :: "char \<Rightarrow> int option" where
  "digit_value c =
     map_of [(CHR ''0'', 0), (CHR ''1'', 1), (CHR ''2'', 2), (CHR ''3'', 3), (CHR ''4'', 4),
             (CHR ''5'', 5), (CHR ''6'', 6), (CHR ''7'', 7), (CHR ''8'', 8), (CHR ''9'', 9)] c"

definition parse_decimal :: "string \<Rightarrow> int option" where
  "parse_decimal s =
     (if s = [] then None
      else foldl (\<lambda>acc c. case acc of
                    None \<Rightarrow> None
                  | Some a \<Rightarrow> (case digit_value c of None \<Rightarrow> None | Some v \<Rightarrow> Some (10 * a + v)))
             (Some 0) s)"

definition parse_timestamp :: "string \<Rightarrow> (int \<times> int \<times> int \<times> int \<times> int \<times> int) option" where
  "parse_timestamp s =
     (if length s = 19 \<and> s ! 4 = CHR ''-'' \<and> s ! 7 = CHR ''-'' \<and> s ! 10 = CHR '' ''
         \<and> s ! 13 = CHR '':'' \<and> s ! 16 = CHR '':''
      then
        (case parse_decimal (slice s 0 4) of None \<Rightarrow> None | Some y \<Rightarrow>
        (case parse_decimal (slice s 5 7) of None \<Rightarrow> None | Some m \<Rightarrow>
        (case parse_decimal (slice s 8 10) of None \<Rightarrow> None | Some d \<Rightarrow>
        (case parse_decimal (slice s 11 13) of None \<Rightarrow> None | Some hh \<Rightarrow>
        (case parse_decimal (slice s 14 16) of None \<Rightarrow> None | Some mm \<Rightarrow>
        (case parse_decimal (slice s 17 19) of None \<Rightarrow> None | Some ss \<Rightarrow>
           Some (y, m, d, hh, mm, ss)))))))
      else None)"

definition is_utc_timestamp :: "string \<Rightarrow> bool" where
  "is_utc_timestamp s =
     (case parse_timestamp s of
        None \<Rightarrow> False
      | Some (y, m, d, hh, mm, ss) \<Rightarrow>
          1 \<le> y \<and> y \<le> 9999 \<and> 1 \<le> m \<and> m \<le> 12 \<and> 1 \<le> d \<and> d \<le> month_length y m
          \<and> hh < 24 \<and> mm < 60 \<and> ss < 60)"

definition timestamp_seconds :: "string \<Rightarrow> int option" where
  "timestamp_seconds s =
     (case parse_timestamp s of
        None \<Rightarrow> None
      | Some (y, m, d, hh, mm, ss) \<Rightarrow>
          Some (days_from_civil y m d * 86400 + hh * 3600 + mm * 60 + ss))"

text \<open>
  The strings the converters put in place of a timestamp they could not compute, and the
  three forms of a timestamp field: a valid timestamp, \<^verbatim>\<open>"Never"\<close>, or one of these markers.
\<close>

definition is_invalid_marker :: "string \<Rightarrow> bool" where
  "is_invalid_marker s = (s = ''Invalid timestamp'' \<or> s = ''Invalid focus time'')"

definition timestamp_or_marker :: "string \<Rightarrow> bool" where
  "timestamp_or_marker s = (is_utc_timestamp s \<or> s = ''Never'' \<or> is_invalid_marker s)"

text \<open>
  What the driver's loops add up to: the records one value contributes (none or one),
  the layout a GUID key selects, and the records of a GUID key.
\<close>

definition value_records :: "string \<Rightarrow> string \<Rightarrow> string \<Rightarrow> bool \<Rightarrow> reg_value \<Rightarrow> pydict list" where
  "value_records username guid ntuser_path win7_format v =
     (if rv_data v = [] then []
      else case parse_userassist_entry (rv_data v) win7_format of
             Inr (Some parsed_data) \<Rightarrow>
               (case make_entry username (rot13_decode (rv_name v)) guid ntuser_path parsed_data of
                  Inr entry \<Rightarrow> [entry]
                | Inl e \<Rightarrow> [])
           | _ \<Rightarrow> [])"

definition version_is_win7 :: "guid_key \<Rightarrow> bool" where
  "version_is_win7 k = (case gk_version k of None \<Rightarrow> False | Some v \<Rightarrow> 5 \<le> v)"

definition key_records :: "string \<Rightarrow> string \<Rightarrow> guid_key \<Rightarrow> pydict list" where
  "key_records username ntuser_path k =
     (case gk_count k of
        None \<Rightarrow> []
      | Some vs \<Rightarrow>
          concat (map (value_records username (gk_name k) ntuser_path (version_is_win7 k)) vs))"

section \<open>The entry decoder\<close>

lemma convert_filetime_returns: "\<exists>s. convert_filetime filetime = Inr s"
  by (simp add: convert_filetime_def split: sum.split)

lemma convert_focus_time_to_utc_returns: "\<exists>s. convert_focus_time_to_utc ms = Inr s"
  by (simp add: convert_focus_time_to_utc_def split: sum.split)

lemma drop4:
  "i + 4 \<le> length xs \<Longrightarrow>
     drop i xs = xs ! i # xs ! (i + 1) # xs ! (i + 2) # xs ! (i + 3) # drop (i + 4) xs"
  by (simp add: Cons_nth_drop_Suc numeral_eq_Suc)

lemma slice4:
  "i + 4 \<le> length xs \<Longrightarrow>
     slice xs i (i + 4) = [xs ! i, xs ! (i + 1), xs ! (i + 2), xs ! (i + 3)]"
  by (simp add: slice_def drop4)

lemma slice8:
  "i + 8 \<le> length xs \<Longrightarrow>
     slice xs i (i + 8) =
       [xs ! i, xs ! (i + 1), xs ! (i + 2), xs ! (i + 3),
        xs ! (i + 4), xs ! (i + 5), xs ! (i + 6), xs ! (i + 7)]"
  using drop4[of i xs] drop4[of "i+4" xs]
  by (simp add: slice_def add.commute)

lemma le_field4:
  "le_field data i (i + 4) =
     uint (data ! i) + 256 * uint (data ! (i + 1)) + 65536 * uint (data ! (i + 2))
       + 16777216 * uint (data ! (i + 3))"
  by (simp add: le_field_def numeral_eq_Suc)

lemma le_field8:
  "le_field data i (i + 8) =
     uint (data ! i) + 256 * uint (data ! (i + 1)) + 65536 * uint (data ! (i + 2))
       + 16777216 * uint (data ! (i + 3)) + 4294967296 * uint (data ! (i + 4))
       + 1099511627776 * uint (data ! (i + 5)) + 281474976710656 * uint (data ! (i + 6))
       + 72057594037927936 * uint (data ! (i + 7))"
  by (simp add: le_field_def numeral_eq_Suc)

lemma unpack_I_slice:
  assumes "i + 4 \<le> length data"
  shows "struct_unpack_I (slice data i (i + 4)) = Inr (le_field data i (i + 4))"
  unfolding slice4 [OF assms] le_field4
  by (simp add: struct_unpack_I_def struct_unpack_uint_def int_from_bytes_little_def)

lemma unpack_Q_slice:
  assumes "i + 8 \<le> length data"
  shows "struct_unpack_Q (slice data i (i + 8)) = Inr (le_field data i (i + 8))"
  unfolding slice8 [OF assms] le_field8
  by (simp add: struct_unpack_Q_def struct_unpack_uint_def int_from_bytes_little_def)

lemma win7_try_long:
  assumes "72 \<le> length data"
  shows "\<exists>ft le. convert_focus_time_to_utc (le_field data 12 16) = Inr ft
           \<and> convert_filetime (le_field data 60 68) = Inr le
           \<and> parse_userassist_entry_win7_try data =
               Inr (Some [(''count'', PyInt (le_field data 4 8)), (''focus_time'', PyStr ft),
                          (''last_execution'', PyStr le)])"
proof -
  obtain ft where ft: "convert_focus_time_to_utc (le_field data 12 16) = Inr ft"
    using convert_focus_time_to_utc_returns by blast
  obtain le where le: "convert_filetime (le_field data 60 68) = Inr le"
    using convert_filetime_returns by blast
  have c: "struct_unpack_I (slice data 4 8) = Inr (le_field data 4 8)"
    using unpack_I_slice [of 4 data] assms by simp
  have f: "struct_unpack_I (slice data 12 16) = Inr (le_field data 12 16)"
    using unpack_I_slice [of 12 data] assms by simp
  have l: "struct_unpack_Q (slice data 60 68) = Inr (le_field data 60 68)"
    using unpack_Q_slice [of 60 data] assms by simp
  show ?thesis
    using assms ft le c f l
    by (simp add: parse_userassist_entry_win7_try_def)
qed

lemma xp_try_long:
  assumes "16 \<le> length data"
  shows "\<exists>le. convert_filetime (le_field data 8 16) = Inr le
           \<and> parse_userassist_entry_xp_try data =
               Inr (Some [(''count'', PyInt (le_field data 4 8)), (''last_execution'', PyStr le)])"
proof -
  obtain le where le: "convert_filetime (le_field data 8 16) = Inr le"
    using convert_filetime_returns by blast
  have c: "struct_unpack_I (slice data 4 8) = Inr (le_field data 4 8)"
    using unpack_I_slice [of 4 data] assms by simp
  have l: "struct_unpack_Q (slice data 8 16) = Inr (le_field data 8 16)"
    using unpack_Q_slice [of 8 data] assms by simp
  show ?thesis
    using assms le c l
    by (simp add: parse_userassist_entry_xp_try_def)
qed

lemma parse_win7_long:
  assumes "72 \<le> length data"
  shows "\<exists>ft le. convert_focus_time_to_utc (le_field data 12 16) = Inr ft
           \<and> convert_filetime (le_field data 60 68) = Inr le
           \<and> parse_userassist_entry data True =
               Inr (Some [(''count'', PyInt (le_field data 4 8)), (''focus_time'', PyStr ft),
                          (''last_execution'', PyStr le)])"
  using win7_try_long [OF assms]
  by (auto simp: parse_userassist_entry_def except_struct_error_def)

lemma parse_xp_long:
  assumes "16 \<le> length data"
  shows "\<exists>le. convert_filetime (le_field data 8 16) = Inr le
           \<and> parse_userassist_entry data False =
               Inr (Some [(''count'', PyInt (le_field data 4 8)), (''last_execution'', PyStr le)])"
  using xp_try_long [OF assms]
  by (auto simp: parse_userassist_entry_def except_struct_error_def)

lemma convert_filetime_0: "convert_filetime 0 = Inr ''Never''"
  by (simp add: convert_filetime_def)

lemma convert_focus_0: "convert_focus_time_to_utc 0 = Inr ''Never''"
  by (simp add: convert_focus_time_to_utc_def convert_focus_time_to_utc_try_def)

lemma parse_win7_zero:
  "parse_userassist_entry (replicate 72 0) True =
     Inr (Some [(''count'', PyInt 0), (''focus_time'', PyStr ''Never''), (''last_execution'', PyStr ''Never'')])"
proof -
  have z: "\<And>i j. i + j \<le> 72 \<Longrightarrow> slice (replicate 72 (0::byte)) i (i + j) = replicate j 0"
    by (simp add: slice_def)
  have c: "struct_unpack_I (slice (replicate 72 0) 4 8) = Inr 0"
    using z [of 4 4] by (simp add: struct_unpack_I_def struct_unpack_uint_def int_from_bytes_little_def numeral_eq_Suc)
  have f: "struct_unpack_I (slice (replicate 72 0) 12 16) = Inr 0"
    using z [of 12 4] by (simp add: struct_unpack_I_def struct_unpack_uint_def int_from_bytes_little_def numeral_eq_Suc)
  have l: "struct_unpack_Q (slice (replicate 72 0) 60 68) = Inr 0"
    using z [of 60 8] by (simp add: struct_unpack_Q_def struct_unpack_uint_def int_from_bytes_little_def numeral_eq_Suc)
  show ?thesis
    by (simp add: parse_userassist_entry_def except_struct_error_def parse_userassist_entry_win7_try_def c f l convert_filetime_0 convert_focus_0)
qed

lemma parse_xp_five:
  assumes "length data = 16" "slice data 4 8 = [5, 0, 0, 0]" "slice data 8 16 = replicate 8 0"
  shows "parse_userassist_entry data False = Inr (Some [(''count'', PyInt 5), (''last_execution'', PyStr ''Never'')])"
proof -
  have c: "struct_unpack_I (slice data 4 8) = Inr 5"
    unfolding assms by (simp add: struct_unpack_I_def struct_unpack_uint_def int_from_bytes_little_def)
  have r: "replicate 8 (0::byte) = [0, 0, 0, 0, 0, 0, 0, 0]"
    by (simp add: numeral_eq_Suc)
  have l: "struct_unpack_Q (slice data 8 16) = Inr 0"
    unfolding assms r by (simp add: struct_unpack_Q_def struct_unpack_uint_def int_from_bytes_little_def)
  show ?thesis
    using assms(1)
    by (simp add: parse_userassist_entry_def except_struct_error_def parse_userassist_entry_xp_try_def c l convert_filetime_0)
qed

text \<open>
  Claim C1. \<^verbatim>\<open>parse_userassist_entry\<close> reads its fields little-endian at the documented
  offsets: under the Windows 7+ layout a blob of at least 72 bytes gives the count from
  bytes \<open>[4, 8)\<close>, the focus time from \<open>[12, 16)\<close> and the last execution from
  \<open>[60, 68)\<close>; under the XP layout a blob of at least 16 bytes gives the count from
  \<open>[4, 8)\<close> and the last execution from \<open>[8, 16)\<close>, and no focus time. 72 zero bytes
  give count 0 and \<^verbatim>\<open>"Never"\<close> twice; 16 bytes with \<open>05 00 00 00\<close> at \<open>[4, 8)\<close> and
  zeros at \<open>[8, 16)\<close> give count 5 and \<^verbatim>\<open>"Never"\<close>.
\<close>

theorem parse_userassist_entry_fields:
  "(72 \<le> length data \<longrightarrow>
      (\<exists>ft le. convert_focus_time_to_utc (le_field data 12 16) = Inr ft
         \<and> convert_filetime (le_field data 60 68) = Inr le
         \<and> parse_userassist_entry data True =
             Inr (Some [(''count'', PyInt (le_field data 4 8)), (''focus_time'', PyStr ft),
                        (''last_execution'', PyStr le)])))
   \<and> (16 \<le> length xdata \<longrightarrow>
      (\<exists>le. convert_filetime (le_field xdata 8 16) = Inr le
         \<and> parse_userassist_entry xdata False =
             Inr (Some [(''count'', PyInt (le_field xdata 4 8)), (''last_execution'', PyStr le)])))
   \<and> parse_userassist_entry (replicate 72 0) True =
        Inr (Some [(''count'', PyInt 0), (''focus_time'', PyStr ''Never''),
                   (''last_execution'', PyStr ''Never'')])
   \<and> (length ldata = 16 \<and> slice ldata 4 8 = [5, 0, 0, 0] \<and> slice ldata 8 16 = replicate 8 0 \<longrightarrow>
        parse_userassist_entry ldata False =
          Inr (Some [(''count'', PyInt 5), (''last_execution'', PyStr ''Never'')]))"
  using parse_win7_long [of data] parse_xp_long [of xdata] parse_win7_zero parse_xp_five [of ldata]
  by blast

theorem parse_userassist_entry_fields_witness:
  "72 \<le> length (replicate 4 1 @ [3, 0, 0, 0] @ replicate 64 (0::byte))
   \<and> 16 \<le> length ([9, 9, 9, 9, 0, 1, 0, 0] @ replicate 8 (0::byte))
   \<and> length ([7, 7, 7, 7, 5, 0, 0, 0] @ replicate 8 (0::byte)) = 16
   \<and> slice ([7, 7, 7, 7, 5, 0, 0, 0] @ replicate 8 (0::byte)) 4 8 = [5, 0, 0, 0]
   \<and> slice ([7, 7, 7, 7, 5, 0, 0, 0] @ replicate 8 (0::byte)) 8 16 = replicate 8 0
   \<and> parse_userassist_entry (replicate 4 1 @ [3, 0, 0, 0] @ replicate 64 0) True =
        Inr (Some [(''count'', PyInt 3), (''focus_time'', PyStr ''Never''),
                   (''last_execution'', PyStr ''Never'')])
   \<and> parse_userassist_entry ([9, 9, 9, 9, 0, 1, 0, 0] @ replicate 8 0) False =
        Inr (Some [(''count'', PyInt 256), (''last_execution'', PyStr ''Never'')])
   \<and> parse_userassist_entry ([7, 7, 7, 7, 5, 0, 0, 0] @ replicate 8 0) False =
        Inr (Some [(''count'', PyInt 5), (''last_execution'', PyStr ''Never'')])"
proof -
  let ?d = "replicate 4 1 @ [3, 0, 0, 0] @ replicate 64 (0::byte)"
  let ?x = "[9, 9, 9, 9, 0, 1, 0, 0] @ replicate 8 (0::byte)"
  let ?l = "[7, 7, 7, 7, 5, 0, 0, 0] @ replicate 8 (0::byte)"
  have h: "72 \<le> length ?d" "16 \<le> length ?x" "length ?l = 16"
    by simp_all
  have s: "slice ?l 4 8 = [5, 0, 0, 0]" "slice ?l 8 16 = replicate 8 0"
    by code_simp+
  have v: "le_field ?d 4 8 = 3" "le_field ?d 12 16 = 0" "le_field ?d 60 68 = 0"
    "le_field ?x 4 8 = 256" "le_field ?x 8 16 = 0"
    by code_simp+
  show ?thesis
    using parse_userassist_entry_fields [of ?d ?x ?l] h s
    unfolding v convert_filetime_0 convert_focus_0
    by blast
qed

lemma parse_userassist_entry_try_returns:
  "\<exists>r. parse_userassist_entry_win7_try data = Inr r"
  "\<exists>r. parse_userassist_entry_xp_try data = Inr r"
proof -
  show "\<exists>r. parse_userassist_entry_win7_try data = Inr r"
  proof (cases "72 \<le> length data")
    case True
    then show ?thesis using win7_try_long by blast
  next
    case False
    then show ?thesis by (simp add: parse_userassist_entry_win7_try_def)
  qed
  show "\<exists>r. parse_userassist_entry_xp_try data = Inr r"
  proof (cases "16 \<le> length data")
    case True
    then show ?thesis using xp_try_long by blast
  next
    case False
    then show ?thesis by (simp add: parse_userassist_entry_xp_try_def)
  qed
qed

lemma parse_userassist_entry_returns: "\<exists>r. parse_userassist_entry data win7_format = Inr r"
  using parse_userassist_entry_try_returns [of data]
  by (auto simp: parse_userassist_entry_def except_struct_error_def)

lemma parse_short_win7: "length data < 72 \<Longrightarrow> parse_userassist_entry data True = Inr None"
  by (simp add: parse_userassist_entry_def except_struct_error_def parse_userassist_entry_win7_try_def)

lemma parse_short_xp: "length data < 16 \<Longrightarrow> parse_userassist_entry data False = Inr None"
  by (simp add: parse_userassist_entry_def except_struct_error_def parse_userassist_entry_xp_try_def)

text \<open>
  Claim C2. A blob shorter than the layout's minimum length (72 bytes for Windows 7+,
  16 for XP) gives \<^verbatim>\<open>None\<close>. The function is its \<^verbatim>\<open>try\<close> body under the handler that turns
  a \<^verbatim>\<open>struct.error\<close> (one that \<^verbatim>\<open>struct.unpack\<close> raises on a buffer of the wrong size) into
  \<^verbatim>\<open>None\<close>; on a byte sequence the body raises nothing, and on every blob the function
  returns a value: no exception leaves it.
\<close>

theorem parse_userassist_entry_no_result:
  "(length data < (if win7_format then 72 else 16) \<longrightarrow>
      parse_userassist_entry data win7_format = Inr None)
   \<and> (\<exists>r. parse_userassist_entry data win7_format = Inr r)
   \<and> parse_userassist_entry data True = except_struct_error (parse_userassist_entry_win7_try data)
   \<and> parse_userassist_entry data False = except_struct_error (parse_userassist_entry_xp_try data)
   \<and> except_struct_error (Inl StructError :: exn + pydict option) = Inr None
   \<and> (length buffer \<noteq> 4 \<longrightarrow> struct_unpack_I buffer = Inl StructError)
   \<and> (length buffer \<noteq> 8 \<longrightarrow> struct_unpack_Q buffer = Inl StructError)
   \<and> (\<exists>r. parse_userassist_entry_win7_try data = Inr r)
   \<and> (\<exists>r. parse_userassist_entry_xp_try data = Inr r)"
proof -
  have a: "length data < (if win7_format then 72 else 16) \<longrightarrow>
      parse_userassist_entry data win7_format = Inr None"
    using parse_short_win7 [of data] parse_short_xp [of data] by (cases win7_format) simp_all
  have b: "except_struct_error (Inl StructError :: exn + pydict option) = Inr None"
    by (simp add: except_struct_error_def)
  have c: "length buffer \<noteq> 4 \<longrightarrow> struct_unpack_I buffer = Inl StructError"
    "length buffer \<noteq> 8 \<longrightarrow> struct_unpack_Q buffer = Inl StructError"
    by (simp_all add: struct_unpack_I_def struct_unpack_Q_def struct_unpack_uint_def)
  have d: "parse_userassist_entry data True = except_struct_error (parse_userassist_entry_win7_try data)"
    "parse_userassist_entry data False = except_struct_error (parse_userassist_entry_xp_try data)"
    by (simp_all add: parse_userassist_entry_def)
  show ?thesis
    using a b c d parse_userassist_entry_returns [of data win7_format]
      parse_userassist_entry_try_returns [of data]
    by blast
qed

theorem parse_userassist_entry_no_result_witness:
  "length (replicate 71 (0::byte)) < (if True then 72 else 16)
   \<and> parse_userassist_entry (replicate 71 0) True = Inr None
   \<and> length (replicate 15 (0::byte)) < (if False then 72 else 16)
   \<and> parse_userassist_entry (replicate 15 0) False = Inr None
   \<and> length [1, 2, 3 :: byte] \<noteq> 4
   \<and> struct_unpack_I [1, 2, 3] = Inl StructError
   \<and> length [1, 2, 3 :: byte] \<noteq> 8
   \<and> struct_unpack_Q [1, 2, 3] = Inl StructError"
  using parse_userassist_entry_no_result [of "replicate 71 0" True "[1, 2, 3]"]
    parse_userassist_entry_no_result [of "replicate 15 0" False "[1, 2, 3]"]
  by simp

section \<open>The calendar arithmetic\<close>

lemma DI_values: "DI400Y = 146097" "DI100Y = 36524" "DI4Y = 1461"
  by (simp_all add: DI400Y_def DI100Y_def DI4Y_def days_before_year_def)

lemma days_before_year_cycles:
  assumes "0 \<le> b" "b \<le> 3" "0 \<le> c" "c \<le> 24" "0 \<le> e" "e \<le> 3"
  shows "days_before_year (400 * a + 100 * b + 4 * c + e + 1) = 146097 * a + 36524 * b + 1461 * c + 365 * e"
proof -
  let ?Y = "400 * a + 100 * b + 4 * c + e"
  have d4: "?Y div 4 = 100 * a + 25 * b + c"
    by (rule int_div_pos_eq [where r = e]) (use assms in simp_all)
  have d100: "?Y div 100 = 4 * a + b"
    by (rule int_div_pos_eq [where r = "4 * c + e"]) (use assms in simp_all)
  have d400: "?Y div 400 = a"
    by (rule int_div_pos_eq [where r = "100 * b + 4 * c + e"]) (use assms in simp_all)
  show ?thesis
    unfolding days_before_year_def Let_def
    using d4 d100 d400 by simp
qed

lemma is_leap_cycles:
  assumes "0 \<le> b" "b \<le> 3" "0 \<le> c" "c \<le> 24" "0 \<le> e" "e \<le> 3"
  shows "is_leap (400 * a + 100 * b + 4 * c + e + 1) = (e = 3 \<and> (c \<noteq> 24 \<or> b = 3))"
proof -
  let ?Y = "400 * a + 100 * b + 4 * c + e + 1"
  have "?Y = (e + 1) + 4 * (100 * a + 25 * b + c)" by simp
  then have m4: "?Y mod 4 = (e + 1) mod 4"
    by (simp only: mod_mult_self2)
  have "?Y = (4 * c + e + 1) + 100 * (4 * a + b)" by simp
  then have m100: "?Y mod 100 = (4 * c + e + 1) mod 100"
    by (simp only: mod_mult_self2)
  have "?Y = (100 * b + 4 * c + e + 1) + 400 * a" by simp
  then have m400: "?Y mod 400 = (100 * b + 4 * c + e + 1) mod 400"
    by (simp only: mod_mult_self2)
  have top: "\<And>x k::int. 1 \<le> x \<Longrightarrow> x \<le> k \<Longrightarrow> (x mod k = 0) = (x = k)"
  proof -
    fix x k :: int assume "1 \<le> x" "x \<le> k"
    show "(x mod k = 0) = (x = k)"
    proof (cases "x = k")
      case True then show ?thesis by simp
    next
      case False
      then have "x mod k = x" using \<open>1 \<le> x\<close> \<open>x \<le> k\<close> by simp
      then show ?thesis using False \<open>1 \<le> x\<close> by simp
    qed
  qed
  have l100: "(4 * c + e + 1 = 100) = (c = 24 \<and> e = 3)"
    using assms(3-6) by presburger
  have l400: "(100 * b + 4 * c + e + 1 = 400) = (b = 3 \<and> c = 24 \<and> e = 3)"
  proof
    assume h: "100 * b + 4 * c + e + 1 = 400"
    have "3 \<le> b" using h assms by linarith
    then have b: "b = 3" using assms by simp
    have "24 \<le> c" using h b assms by linarith
    then have c: "c = 24" using assms by simp
    show "b = 3 \<and> c = 24 \<and> e = 3" using h b c by simp
  qed simp
  have e4: "((e + 1) mod 4 = 0) = (e = 3)"
    using top [of "e + 1" 4] assms(5,6) by simp
  have e100: "((4 * c + e + 1) mod 100 = 0) = (c = 24 \<and> e = 3)"
    using top [of "4 * c + e + 1" 100] assms(3-6) l100 by simp
  have e400: "((100 * b + 4 * c + e + 1) mod 400 = 0) = (b = 3 \<and> c = 24 \<and> e = 3)"
    using top [of "100 * b + 4 * c + e + 1" 400] assms l400 by simp
  show ?thesis
    unfolding is_leap_def m4 m100 m400 e4 e100 e400 by blast
qed

lemma month_day_of_correct:
  assumes "0 \<le> r" "r < 365"
  shows "month_ok L r (month_day_of L r)"
proof -
  define k where "k = (r + 50) div 32"
  have lo: "32 * k - 50 \<le> r" and hi: "r < 32 * k - 18"
    unfolding k_def by linarith+
  have "1 \<le> k" "k \<le> 12" using assms unfolding k_def by linarith+
  then have "k = 1 \<or> k = 2 \<or> k = 3 \<or> k = 4 \<or> k = 5 \<or> k = 6
      \<or> k = 7 \<or> k = 8 \<or> k = 9 \<or> k = 10 \<or> k = 11 \<or> k = 12"
    by presburger
  then show ?thesis
    using lo hi assms
    unfolding month_day_of_def month_ok_def Let_def k_def [symmetric]
    by (elim disjE; cases L; simp add: DAYS_BEFORE_MONTH_def DAYS_IN_MONTH_def)
qed

lemma ord2ymd_unfold:
  "ord2ymd n =
     (let n0 = n - 1;
          n400 = n0 div 146097; n1' = n0 mod 146097;
          n100 = n1' div 36524; n2' = n1' mod 36524;
          n4 = n2' div 1461; n3' = n2' mod 1461;
          n1 = n3' div 365; n4' = n3' mod 365;
          yr = n400 * 400 + 1 + (n100 * 100 + n4 * 4 + n1)
      in if n1 = 4 \<or> n100 = 4 then (yr - 1, 12, 31)
         else case month_day_of (n1 = 3 \<and> (n4 \<noteq> 24 \<or> n100 = 3)) n4' of
                (mo, dy) \<Rightarrow> (yr, mo, dy))"
  unfolding ord2ymd_def month_day_of_def DI_values Let_def
  by (simp only: if_distrib [of "case_prod _"] prod.case)

lemma ord2ymd_correct:
  obtains y m d where "ord2ymd n = (y, m, d)" "1 \<le> m" "m \<le> 12" "1 \<le> d"
    "d \<le> days_in_month y m" "ymd2ord y m d = n"
proof -
  define n0 where "n0 = n - 1"
  define a where "a = n0 div 146097"
  define r1 where "r1 = n0 mod 146097"
  define b where "b = r1 div 36524"
  define r2 where "r2 = r1 mod 36524"
  define c where "c = r2 div 1461"
  define r3 where "r3 = r2 mod 1461"
  define e where "e = r3 div 365"
  define r4 where "r4 = r3 mod 365"
  have n0: "n0 = 146097 * a + r1" unfolding a_def r1_def by simp
  have r1: "r1 = 36524 * b + r2" unfolding b_def r2_def by simp
  have r2: "r2 = 1461 * c + r3" unfolding c_def r3_def by simp
  have r3: "r3 = 365 * e + r4" unfolding e_def r4_def by simp
  have r1b: "0 \<le> r1" "r1 < 146097" unfolding r1_def by simp_all
  have r2b: "0 \<le> r2" "r2 < 36524" unfolding r2_def by simp_all
  have r3b: "0 \<le> r3" "r3 < 1461" unfolding r3_def by simp_all
  have r4b: "0 \<le> r4" "r4 < 365" unfolding r4_def by simp_all
  have bb: "0 \<le> b" "b \<le> 4" using r1 r1b r2b by linarith+
  have cb: "0 \<le> c" "c \<le> 24" using r2 r2b r3b by linarith+
  have eb: "0 \<le> e" "e \<le> 4" using r3 r3b r4b by linarith+
  define yr where "yr = a * 400 + 1 + (b * 100 + c * 4 + e)"
  have yr: "yr = 400 * a + 100 * b + 4 * c + e + 1" unfolding yr_def by simp
  have unf: "ord2ymd n = (if e = 4 \<or> b = 4 then (yr - 1, 12, 31)
      else case month_day_of (e = 3 \<and> (c \<noteq> 24 \<or> b = 3)) r4 of (mo, dy) \<Rightarrow> (yr, mo, dy))"
    unfolding ord2ymd_unfold Let_def yr_def e_def r4_def c_def r3_def b_def r2_def a_def r1_def n0_def
    by (rule refl)
  consider (b4) "b = 4" | (e4) "b \<le> 3" "e = 4" | (gen) "b \<le> 3" "e \<le> 3"
    using bb eb by linarith
  then show thesis
  proof cases
    case b4
    have v: "r2 = 0" "c = 0" "r3 = 0" "e = 0" "r4 = 0"
      using b4 r1 r1b r2 r2b r3 r3b r4b cb eb by linarith+
    have y: "yr - 1 = 400 * a + 100 * 3 + 4 * 24 + 3 + 1" unfolding yr v b4 by simp
    have dby: "days_before_year (yr - 1) = 146097 * a + 145731"
      unfolding y by (subst days_before_year_cycles) simp_all
    have leap: "is_leap (yr - 1)"
      unfolding y by (subst is_leap_cycles) simp_all
    have "n = 146097 * a + 146097" using n0 r1 v b4 unfolding n0_def by linarith
    then have "ymd2ord (yr - 1) 12 31 = n"
      unfolding ymd2ord_def dby days_before_month_def using leap
      by (simp add: DAYS_BEFORE_MONTH_def)
    moreover have "31 \<le> days_in_month (yr - 1) 12"
      by (simp add: days_in_month_def DAYS_IN_MONTH_def)
    moreover have "ord2ymd n = (yr - 1, 12, 31)" unfolding unf using b4 by simp
    ultimately show thesis using that [of "yr - 1" 12 31] by simp
  next
    case e4
    have v: "r4 = 0" "r3 = 1460" using e4 r3 r3b r4b by linarith+
    have c23: "c \<le> 23" using r2 r2b v cb by linarith
    have y: "yr - 1 = 400 * a + 100 * b + 4 * c + 3 + 1" unfolding yr e4 by simp
    have dby: "days_before_year (yr - 1) = 146097 * a + 36524 * b + 1461 * c + 1095"
      unfolding y using bb e4 cb by (subst days_before_year_cycles) simp_all
    have leap: "is_leap (yr - 1)"
      unfolding y using bb e4 cb c23 by (subst is_leap_cycles) simp_all
    have "n = 146097 * a + 36524 * b + 1461 * c + 1461" using n0 r1 r2 v unfolding n0_def by linarith
    then have "ymd2ord (yr - 1) 12 31 = n"
      unfolding ymd2ord_def dby days_before_month_def using leap
      by (simp add: DAYS_BEFORE_MONTH_def)
    moreover have "31 \<le> days_in_month (yr - 1) 12"
      by (simp add: days_in_month_def DAYS_IN_MONTH_def)
    moreover have "ord2ymd n = (yr - 1, 12, 31)" unfolding unf using e4 by simp
    ultimately show thesis using that [of "yr - 1" 12 31] by simp
  next
    case gen
    define L where "L = (e = 3 \<and> (c \<noteq> 24 \<or> b = 3))"
    obtain m d where md: "month_day_of L r4 = (m, d)" by (cases "month_day_of L r4") blast
    have ok: "month_ok L r4 (m, d)" using month_day_of_correct [OF r4b, of L] md by simp
    have dby: "days_before_year yr = 146097 * a + 36524 * b + 1461 * c + 365 * e"
      unfolding yr using bb gen cb eb by (subst days_before_year_cycles) simp_all
    have leap: "is_leap yr = L"
      unfolding yr L_def using bb gen cb eb by (subst is_leap_cycles) simp_all
    have nn: "n = 146097 * a + 36524 * b + 1461 * c + 365 * e + r4 + 1"
      using n0 r1 r2 r3 unfolding n0_def by linarith
    have "ymd2ord yr m d = n"
      using ok unfolding ymd2ord_def dby days_before_month_def leap nn month_ok_def by simp
    moreover have "d \<le> days_in_month yr m"
      using ok unfolding days_in_month_def leap month_ok_def
      by (auto simp: DAYS_IN_MONTH_def)
    moreover have "ord2ymd n = (yr, m, d)"
      unfolding unf using gen md unfolding L_def by simp
    moreover have "1 \<le> m" "m \<le> 12" "1 \<le> d" using ok unfolding month_ok_def by simp_all
    ultimately show thesis using that [of yr m d] by simp
  qed
qed

lemma is_leap_leap_year: "is_leap y = leap_year y"
  unfolding is_leap_def leap_year_def by (simp add: dvd_eq_mod_eq_0)

lemma div_step:
  fixes y k :: int
  assumes "0 < k"
  shows "y div k = (y - 1) div k + (if y mod k = 0 then 1 else 0)"
proof -
  define q where "q = (y - 1) div k"
  define r where "r = (y - 1) mod k"
  have y: "y = k * q + r + 1" unfolding q_def r_def by simp
  have r: "0 \<le> r" "r < k" unfolding r_def using assms by simp_all
  show ?thesis
  proof (cases "r + 1 = k")
    case True
    then have "y = k * (q + 1) + 0" using y by (simp add: algebra_simps)
    then have "y div k = q + 1" "y mod k = 0"
      using assms by (simp_all only: int_div_pos_eq [where r = 0] int_mod_pos_eq [where q = "q + 1"] le_refl)
    then show ?thesis unfolding q_def by simp
  next
    case False
    then have r1: "0 \<le> r + 1" "r + 1 < k" using r by simp_all
    have y': "y = k * q + (r + 1)" using y by simp
    have "y div k = q" using int_div_pos_eq [OF y' r1] .
    moreover have "y mod k = r + 1" using int_mod_pos_eq [OF y' r1] .
    ultimately show ?thesis using r unfolding q_def by simp
  qed
qed

lemma mod_4_100_400:
  fixes y :: int
  shows "y mod 400 = 0 \<Longrightarrow> y mod 100 = 0" "y mod 100 = 0 \<Longrightarrow> y mod 4 = 0"
proof -
  assume "y mod 400 = 0"
  then have "400 dvd y" by (simp only: dvd_eq_mod_eq_0)
  moreover have "(100::int) dvd 400" by simp
  ultimately have "100 dvd y" by (rule dvd_trans [rotated])
  then show "y mod 100 = 0" by (simp only: dvd_eq_mod_eq_0)
next
  assume "y mod 100 = 0"
  then have "100 dvd y" by (simp only: dvd_eq_mod_eq_0)
  moreover have "(4::int) dvd 100" by simp
  ultimately have "4 dvd y" by (rule dvd_trans [rotated])
  then show "y mod 4 = 0" by (simp only: dvd_eq_mod_eq_0)
qed

lemma days_before_year_step:
  "days_before_year (y + 1) = days_before_year y + year_length y"
proof -
  define p4 where "p4 = (y mod 4 = 0)"
  define p100 where "p100 = (y mod 100 = 0)"
  define p400 where "p400 = (y mod 400 = 0)"
  define i4 :: int where "i4 = (if p4 then 1 else 0)"
  define i100 :: int where "i100 = (if p100 then 1 else 0)"
  define i400 :: int where "i400 = (if p400 then 1 else 0)"
  define q4 where "q4 = (y - 1) div 4"
  define q100 where "q100 = (y - 1) div 100"
  define q400 where "q400 = (y - 1) div 400"
  have d: "y div 4 = q4 + i4" "y div 100 = q100 + i100" "y div 400 = q400 + i400"
    unfolding q4_def q100_def q400_def i4_def i100_def i400_def p4_def p100_def p400_def
    by (rule div_step, simp)+
  have imp: "p400 \<longrightarrow> p100" "p100 \<longrightarrow> p4"
    unfolding p4_def p100_def p400_def using mod_4_100_400 [of y] by blast+
  have "year_length y = (if p4 \<and> (\<not> p100 \<or> p400) then 366 else 365)"
    unfolding year_length_def is_leap_leap_year [symmetric] is_leap_def p4_def p100_def p400_def
    by (rule refl)
  then have yl: "year_length y = 365 + i4 - i100 + i400"
    using imp unfolding i4_def i100_def i400_def
    by (cases p4; cases p100; cases p400; simp)
  have "days_before_year (y + 1) = y * 365 + (q4 + i4) - (q100 + i100) + (q400 + i400)"
    unfolding days_before_year_def Let_def d [symmetric] by simp
  moreover have "days_before_year y = (y - 1) * 365 + q4 - q100 + q400"
    unfolding days_before_year_def Let_def q4_def q100_def q400_def by simp
  ultimately show ?thesis unfolding yl by (simp add: algebra_simps)
qed

lemma year_length_ge: "365 \<le> year_length y"
  by (simp add: year_length_def)

lemma days_before_year_mono_aux: "days_before_year y + 365 * int k \<le> days_before_year (y + int k)"
proof (induction k)
  case 0
  then show ?case by simp
next
  case (Suc k)
  have "days_before_year (y + int (Suc k)) = days_before_year (y + int k) + year_length (y + int k)"
    using days_before_year_step [of "y + int k"] by (simp add: algebra_simps)
  then show ?case using Suc year_length_ge [of "y + int k"] by simp
qed

lemma days_before_year_mono:
  assumes "y \<le> y'"
  shows "days_before_year y + 365 * (y' - y) \<le> days_before_year y'"
  using days_before_year_mono_aux [of y "nat (y' - y)"] assms by simp

lemma sum_year_lengths:
  assumes "1 \<le> y"
  shows "(\<Sum>k\<leftarrow>[1..y - 1]. year_length k) = days_before_year y"
  using assms
proof (induction y rule: int_ge_induct)
  case base
  then show ?case by (simp add: days_before_year_def)
next
  case (step i)
  have "[1..i + 1 - 1] = [1..i - 1] @ [i]"
    using step.hyps by (simp add: upto_rec2)
  then show ?case
    using step.IH days_before_year_step [of i] by simp
qed

lemma sum_month_lengths:
  assumes "1 \<le> m" "m \<le> 12"
  shows "(\<Sum>j\<leftarrow>[1..m - 1]. month_length y j) = days_before_month y m"
proof -
  have "m = 1 \<or> m = 2 \<or> m = 3 \<or> m = 4 \<or> m = 5 \<or> m = 6
      \<or> m = 7 \<or> m = 8 \<or> m = 9 \<or> m = 10 \<or> m = 11 \<or> m = 12"
    using assms by presburger
  then show ?thesis
    by (elim disjE; cases "leap_year y";
        simp add: month_length_def days_before_month_def DAYS_BEFORE_MONTH_def is_leap_leap_year
          upto.simps)
qed

lemma month_length_days_in_month:
  assumes "1 \<le> m" "m \<le> 12"
  shows "month_length y m = days_in_month y m"
proof -
  have "m = 1 \<or> m = 2 \<or> m = 3 \<or> m = 4 \<or> m = 5 \<or> m = 6
      \<or> m = 7 \<or> m = 8 \<or> m = 9 \<or> m = 10 \<or> m = 11 \<or> m = 12"
    using assms by presburger
  then show ?thesis
    by (elim disjE; cases "leap_year y";
        simp add: month_length_def days_in_month_def DAYS_IN_MONTH_def is_leap_leap_year)
qed

lemma days_from_civil_ymd2ord:
  assumes "1 \<le> y" "1 \<le> m" "m \<le> 12"
  shows "days_from_civil y m d = ymd2ord y m d - 1"
  unfolding days_from_civil_def ymd2ord_def
  using sum_year_lengths [OF assms(1)] sum_month_lengths [OF assms(2,3), of y] by simp

lemma days_before_month_bounds:
  assumes "1 \<le> m" "m \<le> 12"
  shows "0 \<le> days_before_month y m" "days_before_month y m + days_in_month y m \<le> year_length y"
proof -
  have "m = 1 \<or> m = 2 \<or> m = 3 \<or> m = 4 \<or> m = 5 \<or> m = 6
      \<or> m = 7 \<or> m = 8 \<or> m = 9 \<or> m = 10 \<or> m = 11 \<or> m = 12"
    using assms by presburger
  then show "0 \<le> days_before_month y m" "days_before_month y m + days_in_month y m \<le> year_length y"
    by (elim disjE; cases "leap_year y";
        simp add: year_length_def days_in_month_def days_before_month_def DAYS_IN_MONTH_def DAYS_BEFORE_MONTH_def is_leap_leap_year)+
qed

lemma ord2ymd_year_range:
  assumes "1 \<le> n" "n \<le> MAXORDINAL" "ord2ymd n = (y, m, d)"
  shows "1 \<le> y" "y \<le> 9999"
proof -
  obtain y' m' d' where o: "ord2ymd n = (y', m', d')" "1 \<le> m'" "m' \<le> 12" "1 \<le> d'"
    "d' \<le> days_in_month y' m'" "ymd2ord y' m' d' = n"
    by (rule ord2ymd_correct)
  then have eq: "y' = y" "m' = m" "d' = d" using assms(3) by simp_all
  have n: "n = days_before_year y + days_before_month y m + d"
    using o(6) unfolding eq ymd2ord_def by simp
  have b: "0 \<le> days_before_month y m" "days_before_month y m + days_in_month y m \<le> year_length y"
    using days_before_month_bounds o(2,3) unfolding eq by blast+
  show "1 \<le> y"
  proof (rule ccontr)
    assume "\<not> 1 \<le> y"
    then have "y \<le> 0" by simp
    then have "days_before_year y + 365 * (0 - y) \<le> days_before_year 0"
      by (rule days_before_year_mono)
    moreover have "days_before_year 0 = -366" by (simp add: days_before_year_def)
    moreover have "year_length y \<le> 366" by (simp add: year_length_def)
    ultimately have "days_before_year y + 366 \<le> 0" "year_length y \<le> 366"
      using \<open>y \<le> 0\<close> by simp_all
    moreover have "d \<le> days_in_month y m" using o(5) unfolding eq .
    ultimately show False using n b assms(1) by linarith
  qed
  show "y \<le> 9999"
  proof (rule ccontr)
    assume "\<not> y \<le> 9999"
    then have "10000 \<le> y" by simp
    then have "days_before_year 10000 + 365 * (y - 10000) \<le> days_before_year y"
      by (rule days_before_year_mono)
    moreover have "days_before_year 10000 = 3652059" by (simp add: days_before_year_def)
    ultimately have "3652059 \<le> days_before_year y"
      using \<open>10000 \<le> y\<close> by simp
    moreover have "1 \<le> d" using o(4) unfolding eq .
    ultimately show False using n b(1) assms(2) unfolding MAXORDINAL_def by linarith
  qed
qed

section \<open>The timestamp converters\<close>

lemma int_to_bytes_little_Suc:
  "int_to_bytes_little (Suc n) x = word_of_int x # int_to_bytes_little n (x div 256)"
proof -
  have "[0..<Suc n] = 0 # map Suc [0..<n]"
    by (simp add: upt_conv_Cons map_Suc_upt del: upt_Suc)
  then show ?thesis
    unfolding int_to_bytes_little_def
    by (simp add: comp_def zdiv_zmult2_eq del: upt_Suc)
qed

lemma int_from_bytes_little_Cons:
  "int_from_bytes_little (b # bs) = uint b + 256 * int_from_bytes_little bs"
  by (simp add: int_from_bytes_little_def)

lemma length_int_to_bytes_little: "length (int_to_bytes_little n x) = n"
  by (simp add: int_to_bytes_little_def)

lemma uint_byte_of_int: "uint (word_of_int x :: byte) = x mod 256"
  by (simp add: uint_word_of_int take_bit_eq_mod)

lemma int_from_to_bytes_little:
  "int_from_bytes_little (int_to_bytes_little n x) = x mod 256 ^ n"
proof (induction n arbitrary: x)
  case 0
  then show ?case by (simp add: int_to_bytes_little_def int_from_bytes_little_def)
next
  case (Suc n)
  have "x mod (256 * 256 ^ n) = 256 * (x div 256 mod 256 ^ n) + x mod 256"
    by (rule zmod_zmult2_eq) simp
  then show ?case
    unfolding int_to_bytes_little_Suc int_from_bytes_little_Cons Suc.IH uint_byte_of_int
    by simp
qed

lemma struct_pack_unpack_Q:
  assumes "0 \<le> x" "x < 2 ^ 64"
  shows "\<exists>packed. struct_pack_Q x = Inr packed \<and> struct_unpack_Q packed = Inr x"
proof -
  have p: "(256::int) ^ 8 = 2 ^ 64" by simp
  have "struct_pack_Q x = Inr (int_to_bytes_little 8 x)"
    using assms unfolding struct_pack_Q_def struct_pack_uint_def p by simp
  moreover have "struct_unpack_Q (int_to_bytes_little 8 x) = Inr (x mod 256 ^ 8)"
    unfolding struct_unpack_Q_def struct_unpack_uint_def length_int_to_bytes_little
      int_from_to_bytes_little by simp
  moreover have "x mod 256 ^ 8 = x" using assms unfolding p by simp
  ultimately show ?thesis by simp
qed

lemma struct_pack_Q_out_of_range:
  assumes "x < 0 \<or> 2 ^ 64 \<le> x"
  shows "struct_pack_Q x = Inl StructError"
proof -
  have p: "(256::int) ^ 8 = 2 ^ 64" by simp
  show ?thesis using assms unfolding struct_pack_Q_def struct_pack_uint_def p by auto
qed

lemma timedelta_new_microseconds:
  "timedelta_new 0 0 us 0 0 0 0 =
     (if \<bar>us div 1000000 div 86400\<bar> > 999999999 then Inl OverflowError
      else Inr \<lparr>td_days = us div 1000000 div 86400, td_seconds = us div 1000000 mod 86400,
                td_microseconds = us mod 1000000\<rparr>)"
  unfolding timedelta_new_def Let_def by simp

lemma timedelta_new_milliseconds:
  "timedelta_new 0 0 0 ms 0 0 0 =
     (if \<bar>ms * 1000 div 1000000 div 86400\<bar> > 999999999 then Inl OverflowError
      else Inr \<lparr>td_days = ms * 1000 div 1000000 div 86400,
                td_seconds = ms * 1000 div 1000000 mod 86400,
                td_microseconds = ms * 1000 mod 1000000\<rparr>)"
  unfolding timedelta_new_def Let_def by simp

lemma timedelta_new_normal:
  assumes "0 \<le> s" "s < 86400" "0 \<le> us" "us < 1000000"
  shows "timedelta_new d s us 0 0 0 0 =
     (if \<bar>d\<bar> > 999999999 then Inl OverflowError
      else Inr \<lparr>td_days = d, td_seconds = s, td_microseconds = us\<rparr>)"
  unfolding timedelta_new_def Let_def using assms by simp

lemma toordinal_datetime_new: "toordinal (datetime_new Y M D) = ymd2ord Y M D"
  by (simp add: toordinal_def datetime_new_def)

lemma epoch_ordinals: "ymd2ord 1601 1 1 = 584389" "ymd2ord 1970 1 1 = 719163"
  by (simp_all add: ymd2ord_def days_before_year_def days_before_month_def DAYS_BEFORE_MONTH_def)

lemma datetime_add_epoch:
  assumes E: "ymd2ord Y M D = E" "0 \<le> E" "E \<le> 999999999"
    and td: "0 \<le> td_seconds td" "td_seconds td < 86400"
      "0 \<le> td_microseconds td" "td_microseconds td < 1000000"
  shows "datetime_add (datetime_new Y M D) td =
     (if 0 < E + td_days td \<and> E + td_days td \<le> MAXORDINAL
      then (case ord2ymd (E + td_days td) of
              (y, m, d) \<Rightarrow>
                Inr \<lparr>dt_year = y, dt_month = m, dt_day = d,
                     dt_hour = td_seconds td div 3600,
                     dt_minute = td_seconds td mod 3600 div 60,
                     dt_second = td_seconds td mod 3600 mod 60,
                     dt_microsecond = td_microseconds td\<rparr>)
      else Inl OverflowError)"
proof -
  have d0: "timedelta_new (toordinal (datetime_new Y M D)) (dt_second (datetime_new Y M D))
      (dt_microsecond (datetime_new Y M D)) 0 (dt_minute (datetime_new Y M D))
      (dt_hour (datetime_new Y M D)) 0 = Inr \<lparr>td_days = E, td_seconds = 0, td_microseconds = 0\<rparr>"
    unfolding toordinal_datetime_new E(1)
    using E(2,3) by (simp add: datetime_new_def timedelta_new_def)
  have tsum: "timedelta_add \<lparr>td_days = E, td_seconds = 0, td_microseconds = 0\<rparr> td =
      (if \<bar>E + td_days td\<bar> > 999999999 then Inl OverflowError
       else Inr \<lparr>td_days = E + td_days td, td_seconds = td_seconds td,
                 td_microseconds = td_microseconds td\<rparr>)"
    unfolding timedelta_add_def using timedelta_new_normal [OF td, of "E + td_days td"] by simp
  show ?thesis
  proof (cases "\<bar>E + td_days td\<bar> > 999999999")
    case True
    then have "\<not> (0 < E + td_days td \<and> E + td_days td \<le> MAXORDINAL)"
      unfolding MAXORDINAL_def by linarith
    then have "(0 < E + td_days td \<and> E + td_days td \<le> MAXORDINAL) = False"
      by simp
    then show ?thesis
      using True by (simp only: datetime_add_def d0 tsum sum.case if_True if_False)
  next
    case False
    then show ?thesis
      by (simp add: datetime_add_def d0 tsum Let_def)
  qed
qed

lemma strftime_fields:
  "strftime \<lparr>dt_year = y, dt_month = m, dt_day = d, dt_hour = hh, dt_minute = mm,
      dt_second = ss, dt_microsecond = us\<rparr> = format_ymd_hms y m d hh mm ss"
  by (simp add: strftime_def)

lemma convert_filetime_out_of_range:
  assumes "t < 0 \<or> 2 ^ 64 \<le> t"
  shows "convert_filetime t = Inr ''Invalid timestamp''"
proof -
  have "t \<noteq> 0" using assms by auto
  then show ?thesis
    using struct_pack_Q_out_of_range [OF assms]
    by (simp add: convert_filetime_def convert_filetime_try_def)
qed

lemma convert_filetime_try_unpacked:
  assumes "0 \<le> t" "t < 2 ^ 64"
  shows "convert_filetime_try t =
     (let microseconds = t div 10
      in if microseconds = 0 then Inr ''Never''
         else case timedelta_new 0 0 microseconds 0 0 0 0 of
                Inl e \<Rightarrow> Inl e
              | Inr delta \<Rightarrow>
                  (case datetime_add (datetime_new 1601 1 1) delta of
                     Inl e \<Rightarrow> Inl e
                   | Inr timestamp \<Rightarrow> Inr (strftime timestamp)))"
proof -
  obtain packed where p: "struct_pack_Q t = Inr packed" "struct_unpack_Q packed = Inr t"
    using struct_pack_unpack_Q [OF assms] by blast
  show ?thesis
    unfolding convert_filetime_try_def Let_def by (simp only: p sum.case)
qed

lemma convert_filetime_below_10:
  assumes "0 \<le> t" "t < 10"
  shows "convert_filetime t = Inr ''Never''"
proof -
  have "t < 2 ^ 64" using assms(2) by simp
  moreover have "t div 10 = 0" using assms by simp
  ultimately have "convert_filetime_try t = Inr ''Never''"
    using convert_filetime_try_unpacked [OF assms(1)] by simp
  then show ?thesis by (simp add: convert_filetime_def)
qed

lemma convert_filetime_try_core:
  assumes t: "10 \<le> t" "t < 2 ^ 64"
    and dd: "dd = t div 10 div 1000000 div 86400"
    and S: "S = t div 10 div 1000000 mod 86400"
    and o: "ord2ymd (584389 + dd) = (y, m, d)"
  shows "convert_filetime_try t =
     (if 584389 + dd \<le> MAXORDINAL
      then Inr (format_ymd_hms y m d (S div 3600) (S mod 3600 div 60) (S mod 3600 mod 60))
      else Inl OverflowError)"
proof -
  define us where "us = t div 10"
  have t0: "0 \<le> t" "t \<noteq> 0" using t(1) by simp_all
  have us1: "1 \<le> us" unfolding us_def using t(1) by linarith
  have dd0: "0 \<le> dd" unfolding dd us_def [symmetric] using us1 by (simp add: pos_imp_zdiv_nonneg_iff)
  have S0: "0 \<le> S" "S < 86400" unfolding S by simp_all
  have "t < 18446744073709551616" using t(2) by simp
  then have "us < 18446744073709551616" unfolding us_def using t0(1) by linarith
  then have "us div 1000000 < 18446744073710" by linarith
  then have "us div 1000000 div 86400 < 999999999" by linarith
  then have dd1: "dd < 999999999" unfolding dd us_def [symmetric] .
  define td where "td = \<lparr>td_days = dd, td_seconds = S, td_microseconds = us mod 1000000\<rparr>"
  have sel: "td_days td = dd" "td_seconds td = S" "td_microseconds td = us mod 1000000"
    unfolding td_def by simp_all
  have "\<not> \<bar>dd\<bar> > 999999999" using dd0 dd1 by simp
  then have tdn: "timedelta_new 0 0 us 0 0 0 0 = Inr td"
    unfolding timedelta_new_microseconds td_def dd S us_def by (simp only: if_False)
  have add: "datetime_add (datetime_new 1601 1 1) td =
     (if 0 < 584389 + td_days td \<and> 584389 + td_days td \<le> MAXORDINAL
      then (case ord2ymd (584389 + td_days td) of
              (y, m, d) \<Rightarrow>
                Inr \<lparr>dt_year = y, dt_month = m, dt_day = d,
                     dt_hour = td_seconds td div 3600,
                     dt_minute = td_seconds td mod 3600 div 60,
                     dt_second = td_seconds td mod 3600 mod 60,
                     dt_microsecond = td_microseconds td\<rparr>)
      else Inl OverflowError)"
    by (rule datetime_add_epoch [OF epoch_ordinals(1)]) (simp_all add: sel S0)
  have pos: "0 < 584389 + dd" using dd0 by simp
  have usnz: "(us = 0) = False" using us1 by simp
  have body: "convert_filetime_try t =
      (case datetime_add (datetime_new 1601 1 1) td of
         Inl e \<Rightarrow> Inl e
       | Inr timestamp \<Rightarrow> Inr (strftime timestamp))"
    unfolding convert_filetime_try_unpacked [OF t0(1) t(2)] Let_def us_def [symmetric]
    by (simp only: usnz if_False tdn sum.case)
  show ?thesis
  proof (cases "584389 + dd \<le> MAXORDINAL")
    case True
    then show ?thesis
      unfolding body add sel using pos
      by (simp only: o prod.case strftime_fields simp_thms if_True sum.case)
  next
    case False
    then show ?thesis
      unfolding body add sel
      by (simp only: simp_thms if_False sum.case)
  qed
qed

lemma convert_focus_try_core:
  assumes nz: "ms \<noteq> 0"
    and dd: "dd = ms div 1000 div 86400"
    and S: "S = ms div 1000 mod 86400"
    and o: "ord2ymd (719163 + dd) = (y, m, d)"
  shows "convert_focus_time_to_utc_try ms =
     (if 0 < 719163 + dd \<and> 719163 + dd \<le> MAXORDINAL
      then Inr (format_ymd_hms y m d (S div 3600) (S mod 3600 div 60) (S mod 3600 mod 60))
      else Inl OverflowError)"
proof -
  have k: "ms * 1000 div 1000000 = ms div 1000"
    using div_mult_mult1 [of 1000 ms 1000] by (simp add: mult.commute)
  have S0: "0 \<le> S" "S < 86400" unfolding S by simp_all
  define us where "us = ms * 1000 mod 1000000"
  have us0: "0 \<le> us" "us < 1000000" unfolding us_def by simp_all
  define td where "td = \<lparr>td_days = dd, td_seconds = S, td_microseconds = us\<rparr>"
  have sel: "td_days td = dd" "td_seconds td = S" "td_microseconds td = us"
    unfolding td_def by simp_all
  have tdn: "timedelta_new 0 0 0 ms 0 0 0 =
      (if \<bar>dd\<bar> > 999999999 then Inl OverflowError else Inr td)"
    unfolding timedelta_new_milliseconds k td_def dd S us_def by (rule refl)
  have add: "datetime_add (datetime_new 1970 1 1) td =
     (if 0 < 719163 + td_days td \<and> 719163 + td_days td \<le> MAXORDINAL
      then (case ord2ymd (719163 + td_days td) of
              (y, m, d) \<Rightarrow>
                Inr \<lparr>dt_year = y, dt_month = m, dt_day = d,
                     dt_hour = td_seconds td div 3600,
                     dt_minute = td_seconds td mod 3600 div 60,
                     dt_second = td_seconds td mod 3600 mod 60,
                     dt_microsecond = td_microseconds td\<rparr>)
      else Inl OverflowError)"
    by (rule datetime_add_epoch [OF epoch_ordinals(2)]) (simp_all add: sel S0 us0)
  have nzF: "(ms = 0) = False" using nz by simp
  have body: "convert_focus_time_to_utc_try ms =
      (case timedelta_new 0 0 0 ms 0 0 0 of
         Inl e \<Rightarrow> Inl e
       | Inr delta \<Rightarrow>
           (case datetime_add (datetime_new 1970 1 1) delta of
              Inl e \<Rightarrow> Inl e
            | Inr timestamp \<Rightarrow> Inr (strftime timestamp)))"
    unfolding convert_focus_time_to_utc_try_def Let_def by (simp only: nzF if_False)
  show ?thesis
  proof (cases "0 < 719163 + dd \<and> 719163 + dd \<le> MAXORDINAL")
    case True
    then have "\<not> \<bar>dd\<bar> > 999999999" unfolding MAXORDINAL_def by linarith
    then show ?thesis
      unfolding body tdn using True
      by (simp only: if_False sum.case add sel o prod.case strftime_fields if_True simp_thms)
  next
    case False
    have "convert_focus_time_to_utc_try ms = Inl OverflowError"
    proof (cases "\<bar>dd\<bar> > 999999999")
      case True
      then show ?thesis unfolding body tdn by (simp only: if_True sum.case)
    next
      case big: False
      show ?thesis
        unfolding body tdn using False big
        by (simp only: if_False sum.case add sel simp_thms)
    qed
    then show ?thesis
      using False by (simp only: if_False)
  qed
qed

lemma digit_value_digit_char:
  assumes "0 \<le> d" "d \<le> 9"
  shows "digit_value (digit_char d) = Some d"
proof -
  have "d = 0 \<or> d = 1 \<or> d = 2 \<or> d = 3 \<or> d = 4 \<or> d = 5 \<or> d = 6 \<or> d = 7 \<or> d = 8 \<or> d = 9"
    using assms by presburger
  then show ?thesis
    by (elim disjE; simp add: digit_value_def digit_char_def)
qed

lemma parse_decimal_pad2:
  assumes "0 \<le> n" "n < 100"
  shows "parse_decimal (pad2 n) = Some n"
proof -
  define a where "a = n div 10 mod 10"
  define b where "b = n mod 10"
  have ab: "0 \<le> a" "a \<le> 9" "0 \<le> b" "b \<le> 9" unfolding a_def b_def by simp_all
  have "n div 10 < 10" using assms by linarith
  then have "a = n div 10" unfolding a_def using assms(1) by (simp add: pos_imp_zdiv_nonneg_iff)
  then have n: "10 * a + b = n" unfolding b_def by simp
  show ?thesis
    unfolding pad2_def parse_decimal_def a_def [symmetric] b_def [symmetric]
    by (simp add: digit_value_digit_char ab n)
qed

lemma parse_decimal_pad4:
  assumes "0 \<le> n" "n < 10000"
  shows "parse_decimal (pad4 n) = Some n"
proof -
  define a where "a = n div 1000 mod 10"
  define b where "b = n div 100 mod 10"
  define c where "c = n div 10 mod 10"
  define e where "e = n mod 10"
  have r: "0 \<le> a" "a \<le> 9" "0 \<le> b" "b \<le> 9" "0 \<le> c" "c \<le> 9" "0 \<le> e" "e \<le> 9"
    unfolding a_def b_def c_def e_def by simp_all
  have "n div 1000 < 10" using assms by linarith
  then have a: "a = n div 1000" unfolding a_def using assms(1) by (simp add: pos_imp_zdiv_nonneg_iff)
  have h: "n div 100 = 10 * (n div 1000) + b"
    unfolding b_def using zdiv_zmult2_eq [of 10 n 100] by (simp add: mult.commute)
  have t: "n div 10 = 10 * (n div 100) + c"
    unfolding c_def using zdiv_zmult2_eq [of 10 n 10] by (simp add: mult.commute)
  have u: "n = 10 * (n div 10) + e" unfolding e_def by simp
  have n: "1000 * a + 100 * b + 10 * c + e = n"
    unfolding a using h t u by simp
  show ?thesis
    unfolding pad4_def parse_decimal_def a_def [symmetric] b_def [symmetric] c_def [symmetric]
      e_def [symmetric]
    by (simp add: digit_value_digit_char r n)
qed

lemma length_pad: "length (pad2 n) = 2" "length (pad4 n) = 4"
  by (simp_all add: pad2_def pad4_def)

lemma parse_timestamp_fields:
  assumes "length a = 4" "length b = 2" "length c = 2" "length e = 2" "length f = 2" "length g = 2"
  shows "parse_timestamp (a @ ''-'' @ b @ ''-'' @ c @ '' '' @ e @ '':'' @ f @ '':'' @ g) =
     (case parse_decimal a of None \<Rightarrow> None | Some y \<Rightarrow>
     (case parse_decimal b of None \<Rightarrow> None | Some m \<Rightarrow>
     (case parse_decimal c of None \<Rightarrow> None | Some d \<Rightarrow>
     (case parse_decimal e of None \<Rightarrow> None | Some hh \<Rightarrow>
     (case parse_decimal f of None \<Rightarrow> None | Some mm \<Rightarrow>
     (case parse_decimal g of None \<Rightarrow> None | Some ss \<Rightarrow>
        Some (y, m, d, hh, mm, ss)))))))"
proof -
  let ?s = "a @ ''-'' @ b @ ''-'' @ c @ '' '' @ e @ '':'' @ f @ '':'' @ g"
  have sl: "slice ?s 0 4 = a" "slice ?s 5 7 = b" "slice ?s 8 10 = c" "slice ?s 11 13 = e"
    "slice ?s 14 16 = f" "slice ?s 17 19 = g"
    using assms by (simp_all add: slice_def)
  have sep: "(length ?s = 19 \<and> ?s ! 4 = CHR ''-'' \<and> ?s ! 7 = CHR ''-'' \<and> ?s ! 10 = CHR '' ''
      \<and> ?s ! 13 = CHR '':'' \<and> ?s ! 16 = CHR '':'') = True"
    using assms by (simp add: nth_append)
  show ?thesis
    unfolding parse_timestamp_def sl sep by (simp only: if_True)
qed

lemma parse_timestamp_format:
  assumes "0 \<le> y" "y < 10000" "0 \<le> m" "m < 100" "0 \<le> d" "d < 100"
    "0 \<le> hh" "hh < 100" "0 \<le> mm" "mm < 100" "0 \<le> ss" "ss < 100"
  shows "parse_timestamp (format_ymd_hms y m d hh mm ss) = Some (y, m, d, hh, mm, ss)"
  unfolding format_ymd_hms_def
  using assms
  by (simp only: parse_timestamp_fields length_pad parse_decimal_pad2 parse_decimal_pad4 option.case)

lemma seconds_split:
  fixes S :: int
  assumes "0 \<le> S" "S < 86400"
  shows "0 \<le> S div 3600" "S div 3600 < 24" "0 \<le> S mod 3600 div 60" "S mod 3600 div 60 < 60"
    "0 \<le> S mod 3600 mod 60" "S mod 3600 mod 60 < 60"
    "S div 3600 * 3600 + S mod 3600 div 60 * 60 + S mod 3600 mod 60 = S"
proof -
  define r where "r = S mod 3600"
  have r: "0 \<le> r" "r < 3600" unfolding r_def by simp_all
  show "0 \<le> S div 3600" using assms(1) by (simp add: pos_imp_zdiv_nonneg_iff)
  show "S div 3600 < 24" using assms(2) by linarith
  show "0 \<le> S mod 3600 div 60" unfolding r_def [symmetric] using r(1) by (simp add: pos_imp_zdiv_nonneg_iff)
  show "S mod 3600 div 60 < 60" unfolding r_def [symmetric] using r(2) by linarith
  show "0 \<le> S mod 3600 mod 60" "S mod 3600 mod 60 < 60" by simp_all
  have "r div 60 * 60 + r mod 60 = r" by simp
  moreover have "S div 3600 * 3600 + r = S" unfolding r_def by simp
  ultimately show "S div 3600 * 3600 + S mod 3600 div 60 * 60 + S mod 3600 mod 60 = S"
    unfolding r_def [symmetric] by linarith
qed

lemma days_in_month_le_31:
  assumes "1 \<le> m" "m \<le> 12"
  shows "days_in_month y m \<le> 31"
proof -
  have "m = 1 \<or> m = 2 \<or> m = 3 \<or> m = 4 \<or> m = 5 \<or> m = 6
      \<or> m = 7 \<or> m = 8 \<or> m = 9 \<or> m = 10 \<or> m = 11 \<or> m = 12"
    using assms by presburger
  then show ?thesis
    by (elim disjE; simp add: days_in_month_def DAYS_IN_MONTH_def)
qed

lemma formatted_instant:
  assumes n: "1 \<le> n" "n \<le> MAXORDINAL"
    and S: "0 \<le> S" "S < 86400"
    and o: "ord2ymd n = (y, m, d)"
  shows "is_utc_timestamp (format_ymd_hms y m d (S div 3600) (S mod 3600 div 60) (S mod 3600 mod 60))"
    and "timestamp_seconds (format_ymd_hms y m d (S div 3600) (S mod 3600 div 60) (S mod 3600 mod 60))
           = Some ((n - 1) * 86400 + S)"
proof -
  obtain y' m' d' where c: "ord2ymd n = (y', m', d')" "1 \<le> m'" "m' \<le> 12" "1 \<le> d'"
    "d' \<le> days_in_month y' m'" "ymd2ord y' m' d' = n"
    by (rule ord2ymd_correct)
  have eq: "y' = y" "m' = m" "d' = d" using c(1) o by simp_all
  have m: "1 \<le> m" "m \<le> 12" using c(2,3) unfolding eq .
  have d: "1 \<le> d" "d \<le> days_in_month y m" using c(4,5) unfolding eq .
  have ord: "ymd2ord y m d = n" using c(6) unfolding eq .
  have y: "1 \<le> y" "y \<le> 9999" using ord2ymd_year_range [OF n o] .
  have d31: "d \<le> 31" using d(2) days_in_month_le_31 [OF m, of y] by linarith
  note sp = seconds_split [OF S]
  have p: "parse_timestamp (format_ymd_hms y m d (S div 3600) (S mod 3600 div 60) (S mod 3600 mod 60))
      = Some (y, m, d, S div 3600, S mod 3600 div 60, S mod 3600 mod 60)"
    by (rule parse_timestamp_format) (use y m d d31 sp in linarith)+
  have ml: "d \<le> month_length y m" using d(2) month_length_days_in_month [OF m, of y] by simp
  show "is_utc_timestamp (format_ymd_hms y m d (S div 3600) (S mod 3600 div 60) (S mod 3600 mod 60))"
    unfolding is_utc_timestamp_def p using y m d(1) ml sp(2,4,6) by simp
  have dc: "days_from_civil y m d = n - 1"
    using days_from_civil_ymd2ord [OF y(1) m, of d] ord by simp
  define hh where "hh = S div 3600"
  define mm where "mm = S mod 3600 div 60"
  define ss where "ss = S mod 3600 mod 60"
  have tot: "hh * 3600 + mm * 60 + ss = S" unfolding hh_def mm_def ss_def by (rule sp(7))
  have "timestamp_seconds (format_ymd_hms y m d hh mm ss)
      = Some (days_from_civil y m d * 86400 + hh * 3600 + mm * 60 + ss)"
    unfolding timestamp_seconds_def hh_def mm_def ss_def p by simp
  also have "\<dots> = Some ((n - 1) * 86400 + S)"
    unfolding dc using tot by simp
  finally show "timestamp_seconds (format_ymd_hms y m d (S div 3600) (S mod 3600 div 60) (S mod 3600 mod 60))
           = Some ((n - 1) * 86400 + S)"
    unfolding hh_def mm_def ss_def .
qed

lemma epoch_strings:
  "timestamp_seconds ''1601-01-01 00:00:00'' = Some (584388 * 86400)"
  "timestamp_seconds ''1970-01-01 00:00:00'' = Some (719162 * 86400)"
proof -
  have o: "ord2ymd 584389 = (1601, 1, 1)" "ord2ymd 719163 = (1970, 1, 1)" by code_simp+
  have f: "format_ymd_hms 1601 1 1 0 0 0 = ''1601-01-01 00:00:00''"
    "format_ymd_hms 1970 1 1 0 0 0 = ''1970-01-01 00:00:00''" by code_simp+
  show "timestamp_seconds ''1601-01-01 00:00:00'' = Some (584388 * 86400)"
    using formatted_instant(2) [OF _ _ _ _ o(1), of 0] unfolding f [symmetric] MAXORDINAL_def by simp
  show "timestamp_seconds ''1970-01-01 00:00:00'' = Some (719162 * 86400)"
    using formatted_instant(2) [OF _ _ _ _ o(2), of 0] unfolding f [symmetric] MAXORDINAL_def by simp
qed

lemma convert_filetime_of_try:
  "convert_filetime_try t = Inr s \<Longrightarrow> convert_filetime t = Inr s"
  "t \<noteq> 0 \<Longrightarrow> convert_filetime_try t = Inl e \<Longrightarrow> convert_filetime t = Inr ''Invalid timestamp''"
proof -
  assume h: "convert_filetime_try t = Inr s"
  show "convert_filetime t = Inr s"
  proof (cases "t = 0")
    case True
    have "convert_filetime_try 0 = Inr ''Never''"
      using convert_filetime_try_unpacked [of 0] by simp
    then show ?thesis using h True by (simp add: convert_filetime_def)
  next
    case False
    then show ?thesis using h by (simp add: convert_filetime_def)
  qed
next
  assume "t \<noteq> 0" "convert_filetime_try t = Inl e"
  then show "convert_filetime t = Inr ''Invalid timestamp''"
    by (simp add: convert_filetime_def)
qed

lemma convert_focus_of_try:
  "convert_focus_time_to_utc_try ms = Inr s \<Longrightarrow> convert_focus_time_to_utc ms = Inr s"
  "convert_focus_time_to_utc_try ms = Inl e \<Longrightarrow> convert_focus_time_to_utc ms = Inr ''Invalid focus time''"
  by (simp_all add: convert_focus_time_to_utc_def)

lemma convert_filetime_timestamp:
  assumes "10 \<le> t" "t < 2650467744000000000"
  shows "\<exists>s. convert_filetime t = Inr s \<and> is_utc_timestamp s
           \<and> timestamp_seconds s = Some (584388 * 86400 + t div 10 div 1000000)"
proof -
  define x where "x = t div 10 div 1000000"
  define dd where "dd = x div 86400"
  define S where "S = x mod 86400"
  have t64: "t < 2 ^ 64" using assms(2) by simp
  have "0 \<le> t div 10" "t div 10 < 265046774400000000" using assms by linarith+
  then have x: "0 \<le> x" "x < 265046774400" unfolding x_def by linarith+
  then have dd: "0 \<le> dd" "dd \<le> 3067670" unfolding dd_def by linarith+
  have S: "0 \<le> S" "S < 86400" unfolding S_def by simp_all
  have xs: "x = dd * 86400 + S" unfolding dd_def S_def by simp
  have n: "1 \<le> 584389 + dd" "584389 + dd \<le> MAXORDINAL" using dd unfolding MAXORDINAL_def by simp_all
  obtain y m d where o: "ord2ymd (584389 + dd) = (y, m, d)"
    by (cases "ord2ymd (584389 + dd)") blast
  let ?s = "format_ymd_hms y m d (S div 3600) (S mod 3600 div 60) (S mod 3600 mod 60)"
  have de: "dd = t div 10 div 1000000 div 86400" "S = t div 10 div 1000000 mod 86400"
    unfolding dd_def S_def x_def by (rule refl)+
  have "convert_filetime_try t = Inr ?s"
    unfolding convert_filetime_try_core [OF assms(1) t64 de o]
    using n(2) by (simp only: if_True)
  then have c: "convert_filetime t = Inr ?s" by (rule convert_filetime_of_try)
  have "(584389 + dd - 1) * 86400 + S = 584388 * 86400 + x" unfolding xs by simp
  then have "timestamp_seconds ?s = Some (584388 * 86400 + x)"
    using formatted_instant(2) [OF n S o] by simp
  then show ?thesis
    using c formatted_instant(1) [OF n S o] unfolding x_def by blast
qed

lemma convert_filetime_try_overflow:
  assumes "2650467744000000000 \<le> t" "t < 2 ^ 64"
  shows "convert_filetime_try t = Inl OverflowError"
proof -
  define x where "x = t div 10 div 1000000"
  define dd where "dd = x div 86400"
  have t10: "10 \<le> t" using assms(1) by simp
  have "265046774400000000 \<le> t div 10" using assms(1) by linarith
  then have "265046774400 \<le> x" unfolding x_def by linarith
  then have "3067671 \<le> dd" unfolding dd_def by linarith
  then have n: "\<not> 584389 + dd \<le> MAXORDINAL" unfolding MAXORDINAL_def by simp
  obtain y m d where o: "ord2ymd (584389 + dd) = (y, m, d)"
    by (cases "ord2ymd (584389 + dd)") blast
  have de: "dd = t div 10 div 1000000 div 86400"
    unfolding dd_def x_def by (rule refl)
  show ?thesis
    unfolding convert_filetime_try_core [OF t10 assms(2) de refl o]
    using n by (simp only: if_False simp_thms)
qed

lemma convert_filetime_try_struct_error:
  assumes "t < 0 \<or> 2 ^ 64 \<le> t"
  shows "convert_filetime_try t = Inl StructError"
  using struct_pack_Q_out_of_range [OF assms] by (simp add: convert_filetime_try_def)

lemma convert_filetime_invalid:
  assumes "t < 0 \<or> 2650467744000000000 \<le> t"
  shows "convert_filetime t = Inr ''Invalid timestamp''"
proof -
  have nz: "t \<noteq> 0" using assms by auto
  show ?thesis
  proof (cases "t < 0 \<or> 2 ^ 64 \<le> t")
    case True
    then show ?thesis by (rule convert_filetime_out_of_range)
  next
    case False
    then have "2650467744000000000 \<le> t" "t < 2 ^ 64" using assms by auto
    then show ?thesis
      using convert_filetime_try_overflow convert_filetime_of_try(2) [OF nz] by blast
  qed
qed

lemma convert_focus_timestamp:
  assumes "ms \<noteq> 0" "- 62135596800000 \<le> ms" "ms < 253402300800000"
  shows "\<exists>s. convert_focus_time_to_utc ms = Inr s \<and> is_utc_timestamp s
           \<and> timestamp_seconds s = Some (719162 * 86400 + ms div 1000)"
proof -
  define x where "x = ms div 1000"
  define dd where "dd = x div 86400"
  define S where "S = x mod 86400"
  have x: "- 62135596800 \<le> x" "x < 253402300800" unfolding x_def using assms by linarith+
  then have dd: "- 719162 \<le> dd" "dd \<le> 2932896" unfolding dd_def by linarith+
  have S: "0 \<le> S" "S < 86400" unfolding S_def by simp_all
  have xs: "x = dd * 86400 + S" unfolding dd_def S_def by simp
  have n: "1 \<le> 719163 + dd" "719163 + dd \<le> MAXORDINAL" using dd unfolding MAXORDINAL_def by simp_all
  obtain y m d where o: "ord2ymd (719163 + dd) = (y, m, d)"
    by (cases "ord2ymd (719163 + dd)") blast
  let ?s = "format_ymd_hms y m d (S div 3600) (S mod 3600 div 60) (S mod 3600 mod 60)"
  have de: "dd = ms div 1000 div 86400" "S = ms div 1000 mod 86400"
    unfolding dd_def S_def x_def by (rule refl)+
  have n': "0 < 719163 + dd \<and> 719163 + dd \<le> MAXORDINAL" using n by simp
  have "convert_focus_time_to_utc_try ms = Inr ?s"
    unfolding convert_focus_try_core [OF assms(1) de o]
    using n' by (simp only: if_True simp_thms)
  then have c: "convert_focus_time_to_utc ms = Inr ?s" by (rule convert_focus_of_try)
  have "(719163 + dd - 1) * 86400 + S = 719162 * 86400 + x" unfolding xs by simp
  then have "timestamp_seconds ?s = Some (719162 * 86400 + x)"
    using formatted_instant(2) [OF n S o] by simp
  then show ?thesis
    using c formatted_instant(1) [OF n S o] unfolding x_def by blast
qed

lemma convert_focus_try_overflow:
  assumes "ms < - 62135596800000 \<or> 253402300800000 \<le> ms"
  shows "convert_focus_time_to_utc_try ms = Inl OverflowError"
proof -
  define x where "x = ms div 1000"
  define dd where "dd = x div 86400"
  have nz: "ms \<noteq> 0" using assms by auto
  have "x < - 62135596800 \<or> 253402300800 \<le> x" unfolding x_def using assms by linarith
  then have "dd < - 719162 \<or> 2932897 \<le> dd" unfolding dd_def by linarith
  then have n: "\<not> (0 < 719163 + dd \<and> 719163 + dd \<le> MAXORDINAL)"
    unfolding MAXORDINAL_def by linarith
  obtain y m d where o: "ord2ymd (719163 + dd) = (y, m, d)"
    by (cases "ord2ymd (719163 + dd)") blast
  have de: "dd = ms div 1000 div 86400"
    unfolding dd_def x_def by (rule refl)
  show ?thesis
    unfolding convert_focus_try_core [OF nz de refl o]
    using n by (simp only: if_False simp_thms)
qed

section \<open>What the converters return\<close>

lemma convert_filetime_2021: "convert_filetime 132539328000000000 = Inr ''2021-01-01 00:00:00''"
  by code_simp

lemma convert_filetime_2020: "convert_filetime 132513984000000000 = Inr ''2020-12-02 16:00:00''"
  by code_simp

text \<open>
  Claim C3, amended. For ticks \<open>0 \<le> t < 10\<close> (\<open>t = 0\<close>, or \<open>t div 10 = 0\<close>)
  \<^verbatim>\<open>convert_filetime\<close> returns \<^verbatim>\<open>"Never"\<close>. For \<open>10 \<le> t < 2650467744000000000\<close>, the ticks
  whose date is not after 9999-12-31, it returns a valid \<^verbatim>\<open>YYYY-MM-DD HH:MM:SS\<close> timestamp
  that names the instant \<open>t div 10\<close> microseconds after 1601-01-01 00:00:00, cut to whole
  seconds. It maps 132539328000000000 to \<^verbatim>\<open>"2021-01-01 00:00:00"\<close>, and 132513984000000000
  to \<^verbatim>\<open>"2020-12-02 16:00:00"\<close>.
\<close>

theorem convert_filetime_spec:
  "(0 \<le> t \<and> t < 10 \<longrightarrow> convert_filetime t = Inr ''Never'')
   \<and> (10 \<le> t \<and> t < 2650467744000000000 \<longrightarrow>
        (\<exists>s e. convert_filetime t = Inr s \<and> is_utc_timestamp s
           \<and> timestamp_seconds ''1601-01-01 00:00:00'' = Some e
           \<and> timestamp_seconds s = Some (e + t div 10 div 1000000)))
   \<and> convert_filetime 132539328000000000 = Inr ''2021-01-01 00:00:00''
   \<and> convert_filetime 132513984000000000 = Inr ''2020-12-02 16:00:00''"
  using convert_filetime_below_10 [of t] convert_filetime_timestamp [of t] epoch_strings(1)
    convert_filetime_2021 convert_filetime_2020
  by blast

theorem convert_filetime_spec_witness:
  "(0::int) \<le> 9 \<and> (9::int) < 10 \<and> convert_filetime 9 = Inr ''Never''
   \<and> (10::int) \<le> 132539328000000000 \<and> (132539328000000000::int) < 2650467744000000000
   \<and> convert_filetime 132539328000000000 = Inr ''2021-01-01 00:00:00''
   \<and> is_utc_timestamp ''2021-01-01 00:00:00''
   \<and> (\<exists>e. timestamp_seconds ''1601-01-01 00:00:00'' = Some e
          \<and> timestamp_seconds ''2021-01-01 00:00:00'' = Some (e + 13253932800))"
  using convert_filetime_spec [of 9] convert_filetime_spec [of 132539328000000000]
  by auto

text \<open>
  Claim C3 as stated fails at its example: 132513984000000000 ticks are not
  2021-01-01 00:00:00.
\<close>

theorem convert_filetime_2021_counterexample:
  "convert_filetime 132513984000000000 \<noteq> Inr ''2021-01-01 00:00:00''"
  using convert_filetime_2020 by simp

text \<open>
  Claim C4. \<^verbatim>\<open>convert_focus_time_to_utc\<close> returns \<^verbatim>\<open>"Never"\<close> for 0 milliseconds. For
  \<open>0 < ms < 253402300800000\<close>, the milliseconds whose date is not after 9999-12-31, it
  returns a valid \<^verbatim>\<open>YYYY-MM-DD HH:MM:SS\<close> timestamp that names the instant \<open>ms\<close>
  milliseconds after 1970-01-01 00:00:00, cut to whole seconds.
\<close>

theorem convert_focus_time_to_utc_spec:
  "convert_focus_time_to_utc 0 = Inr ''Never''
   \<and> (0 < ms \<and> ms < 253402300800000 \<longrightarrow>
        (\<exists>s e. convert_focus_time_to_utc ms = Inr s \<and> is_utc_timestamp s
           \<and> timestamp_seconds ''1970-01-01 00:00:00'' = Some e
           \<and> timestamp_seconds s = Some (e + ms div 1000)))"
  using convert_focus_0 convert_focus_timestamp [of ms] epoch_strings(2)
  by force

theorem convert_focus_time_to_utc_spec_witness:
  "(0::int) < 4294967295 \<and> (4294967295::int) < 253402300800000
   \<and> (\<exists>s e. convert_focus_time_to_utc 4294967295 = Inr s \<and> is_utc_timestamp s
           \<and> timestamp_seconds ''1970-01-01 00:00:00'' = Some e
           \<and> timestamp_seconds s = Some (e + 4294967295 div 1000))"
  using convert_focus_time_to_utc_spec [of 4294967295]
  by simp

text \<open>
  Claim C5. Where the body of \<^verbatim>\<open>convert_filetime\<close> raises (\<^verbatim>\<open>struct.error\<close> for ticks
  outside 64 bits, \<^verbatim>\<open>OverflowError\<close> for a date after 9999-12-31) the function returns
  \<^verbatim>\<open>"Invalid timestamp"\<close>; where the body of \<^verbatim>\<open>convert_focus_time_to_utc\<close> raises
  (\<^verbatim>\<open>OverflowError\<close> for a date after 9999-12-31 or before 0001-01-01) the function
  returns \<^verbatim>\<open>"Invalid focus time"\<close>. Both functions return a string on every integer: no
  exception leaves them.
\<close>

theorem converters_recover:
  "(t < 0 \<or> 2 ^ 64 \<le> t \<longrightarrow> convert_filetime_try t = Inl StructError)
   \<and> (2650467744000000000 \<le> t \<and> t < 2 ^ 64 \<longrightarrow> convert_filetime_try t = Inl OverflowError)
   \<and> (t < 0 \<or> 2650467744000000000 \<le> t \<longrightarrow> convert_filetime t = Inr ''Invalid timestamp'')
   \<and> (ms < - 62135596800000 \<or> 253402300800000 \<le> ms \<longrightarrow>
        convert_focus_time_to_utc_try ms = Inl OverflowError
        \<and> convert_focus_time_to_utc ms = Inr ''Invalid focus time'')
   \<and> (\<forall>e. t \<noteq> 0 \<and> convert_filetime_try t = Inl e \<longrightarrow> convert_filetime t = Inr ''Invalid timestamp'')
   \<and> (\<forall>e. convert_focus_time_to_utc_try ms = Inl e \<longrightarrow>
        convert_focus_time_to_utc ms = Inr ''Invalid focus time'')
   \<and> (\<exists>s. convert_filetime t = Inr s)
   \<and> (\<exists>s. convert_focus_time_to_utc ms = Inr s)"
  using convert_filetime_try_struct_error [of t] convert_filetime_try_overflow [of t]
    convert_filetime_invalid [of t] convert_focus_try_overflow [of ms]
    convert_focus_of_try(2) [of ms] convert_filetime_of_try(2) [of t]
    convert_filetime_returns [of t] convert_focus_time_to_utc_returns [of ms]
  by blast

theorem converters_recover_witness:
  "(2650467744000000000::int) \<le> 2650467744000000000 \<and> (2650467744000000000::int) < 2 ^ 64
   \<and> convert_filetime_try 2650467744000000000 = Inl OverflowError
   \<and> convert_filetime 2650467744000000000 = Inr ''Invalid timestamp''
   \<and> (253402300800000::int) \<le> 253402300800000
   \<and> convert_focus_time_to_utc_try 253402300800000 = Inl OverflowError
   \<and> convert_focus_time_to_utc 253402300800000 = Inr ''Invalid focus time''
   \<and> (2::int) ^ 64 \<le> 2 ^ 64
   \<and> convert_filetime_try (2 ^ 64) = Inl StructError
   \<and> convert_filetime (2 ^ 64) = Inr ''Invalid timestamp''"
  using converters_recover [of 2650467744000000000 253402300800000]
    converters_recover [of "2 ^ 64" 253402300800000]
  by simp

text \<open>
  Claim C9. For \<open>0 < a \<le> b\<close> in the representable range, the timestamp
  \<^verbatim>\<open>convert_focus_time_to_utc\<close> gives for \<open>a\<close> names an instant that is not later than the
  one its timestamp for \<open>b\<close> names.
\<close>

theorem convert_focus_time_to_utc_monotone:
  "0 < a \<and> a \<le> b \<and> b < 253402300800000 \<longrightarrow>
     (\<exists>sa sb ta tb. convert_focus_time_to_utc a = Inr sa \<and> convert_focus_time_to_utc b = Inr sb
        \<and> is_utc_timestamp sa \<and> is_utc_timestamp sb
        \<and> timestamp_seconds sa = Some ta \<and> timestamp_seconds sb = Some tb \<and> ta \<le> tb)"
proof
  assume h: "0 < a \<and> a \<le> b \<and> b < 253402300800000"
  then have a: "a \<noteq> 0" "- 62135596800000 \<le> a" "a < 253402300800000"
    and b: "b \<noteq> 0" "- 62135596800000 \<le> b" "b < 253402300800000" by simp_all
  obtain sa where sa: "convert_focus_time_to_utc a = Inr sa" "is_utc_timestamp sa"
    "timestamp_seconds sa = Some (719162 * 86400 + a div 1000)"
    using convert_focus_timestamp [OF a] by blast
  obtain sb where sb: "convert_focus_time_to_utc b = Inr sb" "is_utc_timestamp sb"
    "timestamp_seconds sb = Some (719162 * 86400 + b div 1000)"
    using convert_focus_timestamp [OF b] by blast
  have "a div 1000 \<le> b div 1000" using h by (simp add: zdiv_mono1)
  then have "719162 * 86400 + a div 1000 \<le> 719162 * 86400 + b div 1000" by simp
  then show "\<exists>sa sb ta tb. convert_focus_time_to_utc a = Inr sa \<and> convert_focus_time_to_utc b = Inr sb
        \<and> is_utc_timestamp sa \<and> is_utc_timestamp sb
        \<and> timestamp_seconds sa = Some ta \<and> timestamp_seconds sb = Some tb \<and> ta \<le> tb"
    using sa sb by blast
qed

theorem convert_focus_time_to_utc_monotone_witness:
  "(0::int) < 999 \<and> (999::int) \<le> 86400000 \<and> (86400000::int) < 253402300800000
   \<and> (\<exists>sa sb ta tb. convert_focus_time_to_utc 999 = Inr sa \<and> convert_focus_time_to_utc 86400000 = Inr sb
        \<and> is_utc_timestamp sa \<and> is_utc_timestamp sb
        \<and> timestamp_seconds sa = Some ta \<and> timestamp_seconds sb = Some tb \<and> ta \<le> tb)"
  using convert_focus_time_to_utc_monotone [of 999 86400000]
  by simp

section \<open>The name decoder\<close>

lemma rot13_map_keys: "map fst rot13_map = ascii_uppercase @ ascii_lowercase"
  by code_simp

lemma rot13_other:
  assumes "c \<notin> set ascii_uppercase \<union> set ascii_lowercase"
  shows "translate_char rot13_map c = c"
proof -
  have "c \<notin> set (map fst rot13_map)"
    unfolding rot13_map_keys using assms by simp
  then have "map_of rot13_map c = None"
    by (simp add: map_of_eq_None_iff)
  then show ?thesis by (simp add: translate_char_def)
qed

lemma rot13_upper_all:
  "\<forall>i \<in> set [0..<26]. translate_char rot13_map (ascii_uppercase ! i) = ascii_uppercase ! ((i + 13) mod 26)"
  by code_simp

lemma rot13_lower_all:
  "\<forall>i \<in> set [0..<26]. translate_char rot13_map (ascii_lowercase ! i) = ascii_lowercase ! ((i + 13) mod 26)"
  by code_simp

lemma rot13_upper:
  "i < 26 \<Longrightarrow> translate_char rot13_map (ascii_uppercase ! i) = ascii_uppercase ! ((i + 13) mod 26)"
  using rot13_upper_all by simp

lemma rot13_lower:
  "i < 26 \<Longrightarrow> translate_char rot13_map (ascii_lowercase ! i) = ascii_lowercase ! ((i + 13) mod 26)"
  using rot13_lower_all by simp

lemma length_alphabet: "length ascii_uppercase = 26" "length ascii_lowercase = 26"
  by code_simp+

lemma nth_mem_upper:
  assumes "c \<in> set ascii_uppercase"
  shows "\<exists>i<26. c = ascii_uppercase ! i"
proof -
  from assms obtain i where "i < length ascii_uppercase" "ascii_uppercase ! i = c"
    unfolding in_set_conv_nth by blast
  then show ?thesis unfolding length_alphabet by blast
qed

lemma nth_mem_lower:
  assumes "c \<in> set ascii_lowercase"
  shows "\<exists>i<26. c = ascii_lowercase ! i"
proof -
  from assms obtain i where "i < length ascii_lowercase" "ascii_lowercase ! i = c"
    unfolding in_set_conv_nth by blast
  then show ?thesis unfolding length_alphabet by blast
qed

lemma rotate_twice: "i < 26 \<Longrightarrow> ((i + 13) mod 26 + 13) mod 26 = (i::nat)"
  by (simp add: mod_add_left_eq)

lemma translate_char_rot13_twice: "translate_char rot13_map (translate_char rot13_map c) = c"
proof -
  consider (u) "c \<in> set ascii_uppercase" | (l) "c \<in> set ascii_lowercase"
    | (o) "c \<notin> set ascii_uppercase \<union> set ascii_lowercase" by blast
  then show ?thesis
  proof cases
    case u
    then obtain i where i: "i < 26" "c = ascii_uppercase ! i" using nth_mem_upper by blast
    have j: "(i + 13) mod 26 < 26" by simp
    show ?thesis
      unfolding i(2) rot13_upper [OF i(1)] rot13_upper [OF j] rotate_twice [OF i(1)] by (rule refl)
  next
    case l
    then obtain i where i: "i < 26" "c = ascii_lowercase ! i" using nth_mem_lower by blast
    have j: "(i + 13) mod 26 < 26" by simp
    show ?thesis
      unfolding i(2) rot13_lower [OF i(1)] rot13_lower [OF j] rotate_twice [OF i(1)] by (rule refl)
  next
    case o
    then show ?thesis by (simp add: rot13_other)
  qed
qed

lemma rot13_decode_map: "rot13_decode s = map (translate_char rot13_map) s"
  by (simp add: rot13_decode_def str_translate_def)

lemma rot13_decode_involution: "rot13_decode (rot13_decode s) = s"
  unfolding rot13_decode_map by (induction s) (simp_all add: translate_char_rot13_twice)

text \<open>
  Claim C7. \<^verbatim>\<open>rot13_decode\<close> is its own inverse on every string. It keeps the length
  and works character by character: the letter at position \<open>i\<close> of the upper-case (of the
  lower-case) alphabet becomes the letter at position \<open>(i + 13) mod 26\<close> of the same
  alphabet, and a character that is not one of the 52 letters stays as it is. The empty
  string decodes to the empty string.
\<close>

theorem rot13_decode_self_inverse:
  "rot13_decode (rot13_decode s) = s
   \<and> length (rot13_decode s) = length s
   \<and> (\<forall>k<length s.
        (\<forall>i<26. s ! k = ascii_uppercase ! i \<longrightarrow>
           rot13_decode s ! k = ascii_uppercase ! ((i + 13) mod 26))
        \<and> (\<forall>i<26. s ! k = ascii_lowercase ! i \<longrightarrow>
           rot13_decode s ! k = ascii_lowercase ! ((i + 13) mod 26))
        \<and> (s ! k \<notin> set ascii_uppercase \<union> set ascii_lowercase \<longrightarrow> rot13_decode s ! k = s ! k))
   \<and> rot13_decode [] = []"
  using rot13_decode_involution [of s] rot13_upper rot13_lower rot13_other
  by (simp add: rot13_decode_map)

theorem rot13_decode_self_inverse_witness:
  "rot13_decode (rot13_decode ''HRZR_EHACNGU:abgrcnq.rkr'') = ''HRZR_EHACNGU:abgrcnq.rkr''
   \<and> length (rot13_decode ''HRZR_EHACNGU:abgrcnq.rkr'') = length ''HRZR_EHACNGU:abgrcnq.rkr''
   \<and> (0::nat) < length ''HRZR_EHACNGU:abgrcnq.rkr'' \<and> (7::nat) < 26
   \<and> ''HRZR_EHACNGU:abgrcnq.rkr'' ! 0 = ascii_uppercase ! 7
   \<and> rot13_decode ''HRZR_EHACNGU:abgrcnq.rkr'' ! 0 = ascii_uppercase ! ((7 + 13) mod 26)
   \<and> (13::nat) < length ''HRZR_EHACNGU:abgrcnq.rkr'' \<and> (0::nat) < 26
   \<and> ''HRZR_EHACNGU:abgrcnq.rkr'' ! 13 = ascii_lowercase ! 0
   \<and> rot13_decode ''HRZR_EHACNGU:abgrcnq.rkr'' ! 13 = ascii_lowercase ! ((0 + 13) mod 26)
   \<and> (4::nat) < length ''HRZR_EHACNGU:abgrcnq.rkr''
   \<and> ''HRZR_EHACNGU:abgrcnq.rkr'' ! 4 \<notin> set ascii_uppercase \<union> set ascii_lowercase
   \<and> rot13_decode ''HRZR_EHACNGU:abgrcnq.rkr'' ! 4 = ''HRZR_EHACNGU:abgrcnq.rkr'' ! 4"
proof -
  let ?s = "''HRZR_EHACNGU:abgrcnq.rkr''"
  have h: "(0::nat) < length ?s" "(13::nat) < length ?s" "(4::nat) < length ?s"
    "(7::nat) < 26" "(0::nat) < 26"
    "?s ! 0 = ascii_uppercase ! 7" "?s ! 13 = ascii_lowercase ! 0"
    "?s ! 4 \<notin> set ascii_uppercase \<union> set ascii_lowercase"
    by code_simp+
  show ?thesis
    using rot13_decode_self_inverse [of ?s] h by blast
qed


section \<open>The aggregation driver\<close>

text \<open>
  Claim C6. The layout is chosen from the GUID key's \<^verbatim>\<open>Version\<close> value: XP (Legacy) when
  the value is absent, Windows 7+ (Modern) when it is at least 5, XP otherwise; absent, 4,
  5 and 7 give XP, XP, Windows 7+ and Windows 7+. The choice raises no exception.
\<close>

theorem select_win7_format_spec:
  "select_win7_format k = Inr (case gk_version k of None \<Rightarrow> False | Some v \<Rightarrow> 5 \<le> v)
   \<and> (gk_version k = None \<longrightarrow> select_win7_format k = Inr False)
   \<and> (\<forall>v. gk_version k = Some v \<and> 5 \<le> v \<longrightarrow> select_win7_format k = Inr True)
   \<and> (\<forall>v. gk_version k = Some v \<and> v < 5 \<longrightarrow> select_win7_format k = Inr False)
   \<and> select_win7_format (k\<lparr>gk_version := None\<rparr>) = Inr False
   \<and> select_win7_format (k\<lparr>gk_version := Some 4\<rparr>) = Inr False
   \<and> select_win7_format (k\<lparr>gk_version := Some 5\<rparr>) = Inr True
   \<and> select_win7_format (k\<lparr>gk_version := Some 7\<rparr>) = Inr True
   \<and> (\<exists>b. select_win7_format k = Inr b)"
  by (cases "gk_version k") (auto simp: select_win7_format_def key_value_version_def)

theorem select_win7_format_spec_witness:
  "gk_version \<lparr>gk_name = ''{G}'', gk_version = None, gk_count = None\<rparr> = None
   \<and> select_win7_format \<lparr>gk_name = ''{G}'', gk_version = None, gk_count = None\<rparr> = Inr False
   \<and> gk_version \<lparr>gk_name = ''{G}'', gk_version = Some 5, gk_count = None\<rparr> = Some 5
   \<and> (5::int) \<le> 5
   \<and> select_win7_format \<lparr>gk_name = ''{G}'', gk_version = Some 5, gk_count = None\<rparr> = Inr True
   \<and> gk_version \<lparr>gk_name = ''{G}'', gk_version = Some 4, gk_count = None\<rparr> = Some 4
   \<and> (4::int) < 5
   \<and> select_win7_format \<lparr>gk_name = ''{G}'', gk_version = Some 4, gk_count = None\<rparr> = Inr False"
  using select_win7_format_spec [of "\<lparr>gk_name = ''{G}'', gk_version = None, gk_count = None\<rparr>"]
    select_win7_format_spec [of "\<lparr>gk_name = ''{G}'', gk_version = Some 5, gk_count = None\<rparr>"]
    select_win7_format_spec [of "\<lparr>gk_name = ''{G}'', gk_version = Some 4, gk_count = None\<rparr>"]
  by simp

lemma convert_filetime_forms:
  assumes "convert_filetime t = Inr s"
  shows "is_utc_timestamp s \<or> s = ''Never'' \<or> s = ''Invalid timestamp''"
proof -
  consider "t < 0 \<or> 2650467744000000000 \<le> t" | "0 \<le> t" "t < 10"
    | "10 \<le> t" "t < 2650467744000000000" by linarith
  then show ?thesis
  proof cases
    case 1
    then show ?thesis using convert_filetime_invalid assms by simp
  next
    case 2
    then show ?thesis using convert_filetime_below_10 assms by simp
  next
    case 3
    then show ?thesis using convert_filetime_timestamp [of t] assms by auto
  qed
qed

lemma convert_focus_forms:
  assumes "convert_focus_time_to_utc ms = Inr s"
  shows "is_utc_timestamp s \<or> s = ''Never'' \<or> s = ''Invalid focus time''"
proof -
  consider "ms = 0" | "ms < - 62135596800000 \<or> 253402300800000 \<le> ms"
    | "ms \<noteq> 0" "- 62135596800000 \<le> ms" "ms < 253402300800000" by linarith
  then show ?thesis
  proof cases
    case 1
    then show ?thesis using convert_focus_0 assms by simp
  next
    case 2
    then show ?thesis using convert_focus_try_overflow convert_focus_of_try(2) assms by fastforce
  next
    case 3
    then show ?thesis using convert_focus_timestamp [of ms] assms by auto
  qed
qed

lemma parse_win7_shape:
  assumes "parse_userassist_entry data True = Inr (Some d)"
  shows "\<exists>c ft le. d = [(''count'', PyInt c), (''focus_time'', PyStr ft), (''last_execution'', PyStr le)]
           \<and> (is_utc_timestamp ft \<or> ft = ''Never'' \<or> ft = ''Invalid focus time'')
           \<and> (is_utc_timestamp le \<or> le = ''Never'' \<or> le = ''Invalid timestamp'')"
proof (cases "72 \<le> length data")
  case True
  then obtain ft le where
    f: "convert_focus_time_to_utc (le_field data 12 16) = Inr ft"
    and l: "convert_filetime (le_field data 60 68) = Inr le"
    and p: "parse_userassist_entry data True =
             Inr (Some [(''count'', PyInt (le_field data 4 8)), (''focus_time'', PyStr ft),
                        (''last_execution'', PyStr le)])"
    using parse_win7_long by blast
  show ?thesis
    using assms p convert_focus_forms [OF f] convert_filetime_forms [OF l] by auto
next
  case False
  then show ?thesis using parse_short_win7 [of data] assms by simp
qed

lemma parse_xp_shape:
  assumes "parse_userassist_entry data False = Inr (Some d)"
  shows "\<exists>c le. d = [(''count'', PyInt c), (''last_execution'', PyStr le)]
           \<and> (is_utc_timestamp le \<or> le = ''Never'' \<or> le = ''Invalid timestamp'')"
proof (cases "16 \<le> length data")
  case True
  then obtain le where
    l: "convert_filetime (le_field data 8 16) = Inr le"
    and p: "parse_userassist_entry data False =
             Inr (Some [(''count'', PyInt (le_field data 4 8)), (''last_execution'', PyStr le)])"
    using parse_xp_long by blast
  show ?thesis
    using assms p convert_filetime_forms [OF l] by auto
next
  case False
  then show ?thesis using parse_short_xp [of data] assms by simp
qed

lemma make_entry_win7:
  "make_entry u n g p [(''count'', PyInt c), (''focus_time'', PyStr ft), (''last_execution'', PyStr le)] =
     Inr [(''username'', PyStr u), (''name'', PyStr n), (''last_execution'', PyStr le),
          (''guid'', PyStr g), (''count'', PyInt c), (''focus_time'', PyStr ft),
          (''source_file'', PyStr p)]"
  by (simp add: make_entry_def dict_getitem_def dict_get_def)

lemma make_entry_xp:
  "make_entry u n g p [(''count'', PyInt c), (''last_execution'', PyStr le)] =
     Inr [(''username'', PyStr u), (''name'', PyStr n), (''last_execution'', PyStr le),
          (''guid'', PyStr g), (''count'', PyInt c), (''focus_time'', PyStr ''N/A''),
          (''source_file'', PyStr p)]"
  by (simp add: make_entry_def dict_getitem_def dict_get_def)

lemma parsed_make_entry:
  assumes "parse_userassist_entry data w = Inr (Some d)"
  shows "d \<noteq> [] \<and> (\<exists>entry. make_entry u n g p d = Inr entry)"
proof (cases w)
  case True
  then show ?thesis using parse_win7_shape [of data d] assms make_entry_win7 by auto
next
  case False
  then show ?thesis using parse_xp_shape [of data d] assms make_entry_xp by auto
qed

lemma count_values_loop_step:
  "count_values_loop u g p w (v # rest) acc =
     count_values_loop u g p w rest (acc @ value_records u g p w v)"
proof (cases "rv_data v = []")
  case True
  then show ?thesis by (simp add: value_records_def)
next
  case ne: False
  obtain r where r: "parse_userassist_entry (rv_data v) w = Inr r"
    using parse_userassist_entry_returns by blast
  show ?thesis
  proof (cases r)
    case None
    then show ?thesis using ne r by (simp add: value_records_def)
  next
    case (Some d)
    then obtain entry where e: "d \<noteq> []" "make_entry u (rot13_decode (rv_name v)) g p d = Inr entry"
      using parsed_make_entry r by blast
    then show ?thesis using ne r Some by (simp add: value_records_def)
  qed
qed

lemma count_values_loop_records:
  "count_values_loop u g p w vs acc = (acc @ concat (map (value_records u g p w) vs), None)"
proof (induction vs arbitrary: acc)
  case Nil
  then show ?case by simp
next
  case (Cons v vs)
  show ?case unfolding count_values_loop_step Cons.IH by simp
qed

lemma select_win7_format_version: "select_win7_format k = Inr (version_is_win7 k)"
  by (cases "gk_version k") (simp_all add: select_win7_format_def key_value_version_def version_is_win7_def)

lemma guid_keys_loop_step:
  "guid_keys_loop u p (k # rest) acc = guid_keys_loop u p rest (acc @ key_records u p k)"
  by (cases "gk_count k")
    (simp_all add: select_win7_format_version key_subkey_count_def key_records_def
      count_values_loop_records)

lemma guid_keys_loop_records:
  "guid_keys_loop u p ks acc = (acc @ concat (map (key_records u p) ks), None)"
proof (induction ks arbitrary: acc)
  case Nil
  then show ?case by simp
next
  case (Cons k ks)
  show ?case unfolding guid_keys_loop_step Cons.IH by simp
qed

lemma parse_userassist_records:
  "parse_userassist p u hive =
     (case hive of
        Inl e \<Rightarrow> None
      | Inr reg \<Rightarrow>
          (case reg_userassist reg of
             None \<Rightarrow> None
           | Some ks \<Rightarrow> Some (concat (map (key_records u p) ks))))"
  by (simp add: parse_userassist_def registry_open_userassist_def guid_keys_loop_records
      split: sum.split option.split)

lemma value_records_win7:
  assumes "e \<in> set (value_records u g p True v)"
  shows "\<exists>c ft le. e = [(''username'', PyStr u), (''name'', PyStr (rot13_decode (rv_name v))),
             (''last_execution'', PyStr le), (''guid'', PyStr g), (''count'', PyInt c),
             (''focus_time'', PyStr ft), (''source_file'', PyStr p)]
           \<and> (is_utc_timestamp ft \<or> ft = ''Never'' \<or> ft = ''Invalid focus time'')
           \<and> (is_utc_timestamp le \<or> le = ''Never'' \<or> le = ''Invalid timestamp'')"
proof -
  obtain r where r: "parse_userassist_entry (rv_data v) True = Inr r"
    using parse_userassist_entry_returns by blast
  show ?thesis
  proof (cases r)
    case None
    then show ?thesis using assms r by (simp add: value_records_def split: if_splits)
  next
    case (Some d)
    then obtain c ft le where d: "d = [(''count'', PyInt c), (''focus_time'', PyStr ft), (''last_execution'', PyStr le)]"
      and f: "is_utc_timestamp ft \<or> ft = ''Never'' \<or> ft = ''Invalid focus time''"
      and l: "is_utc_timestamp le \<or> le = ''Never'' \<or> le = ''Invalid timestamp''"
      using parse_win7_shape r by blast
    have "e = [(''username'', PyStr u), (''name'', PyStr (rot13_decode (rv_name v))),
             (''last_execution'', PyStr le), (''guid'', PyStr g), (''count'', PyInt c),
             (''focus_time'', PyStr ft), (''source_file'', PyStr p)]"
      using assms r Some unfolding d
      by (simp add: value_records_def make_entry_win7 split: if_splits)
    then show ?thesis using f l by blast
  qed
qed

lemma value_records_xp:
  assumes "e \<in> set (value_records u g p False v)"
  shows "\<exists>c le. e = [(''username'', PyStr u), (''name'', PyStr (rot13_decode (rv_name v))),
             (''last_execution'', PyStr le), (''guid'', PyStr g), (''count'', PyInt c),
             (''focus_time'', PyStr ''N/A''), (''source_file'', PyStr p)]
           \<and> (is_utc_timestamp le \<or> le = ''Never'' \<or> le = ''Invalid timestamp'')"
proof -
  obtain r where r: "parse_userassist_entry (rv_data v) False = Inr r"
    using parse_userassist_entry_returns by blast
  show ?thesis
  proof (cases r)
    case None
    then show ?thesis using assms r by (simp add: value_records_def split: if_splits)
  next
    case (Some d)
    then obtain c le where d: "d = [(''count'', PyInt c), (''last_execution'', PyStr le)]"
      and l: "is_utc_timestamp le \<or> le = ''Never'' \<or> le = ''Invalid timestamp''"
      using parse_xp_shape r by blast
    have "e = [(''username'', PyStr u), (''name'', PyStr (rot13_decode (rv_name v))),
             (''last_execution'', PyStr le), (''guid'', PyStr g), (''count'', PyInt c),
             (''focus_time'', PyStr ''N/A''), (''source_file'', PyStr p)]"
      using assms r Some unfolding d
      by (simp add: value_records_def make_entry_xp split: if_splits)
    then show ?thesis using l by blast
  qed
qed

lemma value_records_layout:
  assumes "e \<in> set (value_records u g p w v)"
  shows "(\<exists>s. map_of e ''last_execution'' = Some (PyStr s) \<and> timestamp_or_marker s)
       \<and> map_of e ''guid'' = Some (PyStr g)
       \<and> (if w then (\<exists>s. map_of e ''focus_time'' = Some (PyStr s) \<and> timestamp_or_marker s)
          else map_of e ''focus_time'' = Some (PyStr ''N/A''))"
proof (cases w)
  case True
  then have "e \<in> set (value_records u g p True v)" using assms by simp
  then obtain c ft le where "e = [(''username'', PyStr u), (''name'', PyStr (rot13_decode (rv_name v))),
             (''last_execution'', PyStr le), (''guid'', PyStr g), (''count'', PyInt c),
             (''focus_time'', PyStr ft), (''source_file'', PyStr p)]"
      "is_utc_timestamp ft \<or> ft = ''Never'' \<or> ft = ''Invalid focus time''"
      "is_utc_timestamp le \<or> le = ''Never'' \<or> le = ''Invalid timestamp''"
    using value_records_win7 by blast
  then show ?thesis using True
    by (auto simp: timestamp_or_marker_def is_invalid_marker_def)
next
  case False
  then have "e \<in> set (value_records u g p False v)" using assms by simp
  then obtain c le where "e = [(''username'', PyStr u), (''name'', PyStr (rot13_decode (rv_name v))),
             (''last_execution'', PyStr le), (''guid'', PyStr g), (''count'', PyInt c),
             (''focus_time'', PyStr ''N/A''), (''source_file'', PyStr p)]"
      "is_utc_timestamp le \<or> le = ''Never'' \<or> le = ''Invalid timestamp''"
    using value_records_xp by blast
  then show ?thesis using False
    by (auto simp: timestamp_or_marker_def is_invalid_marker_def)
qed

lemma value_records_xp_focus:
  assumes "e \<in> set (value_records u g p False v)"
  shows "map_of e ''focus_time'' = Some (PyStr ''N/A'')"
  using value_records_xp [OF assms] by auto

lemma key_records_layout:
  assumes "e \<in> set (key_records u p k)"
  shows "(\<exists>s. map_of e ''last_execution'' = Some (PyStr s) \<and> timestamp_or_marker s)
       \<and> map_of e ''guid'' = Some (PyStr (gk_name k))
       \<and> (if version_is_win7 k
          then (\<exists>s. map_of e ''focus_time'' = Some (PyStr s) \<and> timestamp_or_marker s)
          else map_of e ''focus_time'' = Some (PyStr ''N/A''))"
proof (cases "gk_count k")
  case None
  then show ?thesis using assms by (simp add: key_records_def)
next
  case (Some vs)
  then obtain v where "e \<in> set (value_records u (gk_name k) p (version_is_win7 k) v)"
    using assms by (auto simp: key_records_def)
  then show ?thesis by (rule value_records_layout)
qed

lemma key_records_xp_focus:
  assumes "e \<in> set (key_records u p k)" "\<not> version_is_win7 k"
  shows "map_of e ''focus_time'' = Some (PyStr ''N/A'')"
proof (cases "gk_count k")
  case None
  then show ?thesis using assms by (simp add: key_records_def)
next
  case (Some vs)
  then obtain v where "e \<in> set (value_records u (gk_name k) p False v)"
    using assms by (auto simp: key_records_def)
  then show ?thesis by (rule value_records_xp_focus)
qed

lemma not_applicable_marker:
  "\<not> is_utc_timestamp ''N/A''" "''N/A'' \<noteq> ''Never''" "\<not> is_invalid_marker ''N/A''"
  "\<not> timestamp_or_marker ''N/A''"
  by (simp_all add: timestamp_or_marker_def is_invalid_marker_def is_utc_timestamp_def parse_timestamp_def)

text \<open>
  Claim C8, amended. In every record the driver emits, \<^verbatim>\<open>last_execution\<close> is present and is
  a string that is a valid \<^verbatim>\<open>YYYY-MM-DD HH:MM:SS\<close> timestamp, \<^verbatim>\<open>"Never"\<close> or an invalid
  marker. \<^verbatim>\<open>focus_time\<close> is present and is a string that depends on the layout the value was
  decoded under: under the Windows 7+ (Modern) layout it is one of the same three forms,
  under the XP (Legacy) layout it is the not-applicable marker \<^verbatim>\<open>'N/A'\<close>. This holds for the
  records the loop over a \<^verbatim>\<open>Count\<close> key's values appends under either layout, and for the
  list \<^verbatim>\<open>parse_userassist\<close> returns: it is the concatenation, in the order of the GUID keys,
  of one segment per key whose records carry that key's name as \<^verbatim>\<open>guid\<close> and the focus time
  of the layout that key selects. In particular every record of a hive whose GUID keys all
  select the Windows 7+ layout has a focus time of the three forms.
\<close>

theorem emitted_fields:
  "(count_values_loop u g p w vs acc = (out, exc) \<longrightarrow>
      exc = None \<and> (\<exists>new. out = acc @ new \<and> (\<forall>e\<in>set new.
         (\<exists>s. map_of e ''last_execution'' = Some (PyStr s) \<and> timestamp_or_marker s)
         \<and> (if w then (\<exists>s. map_of e ''focus_time'' = Some (PyStr s) \<and> timestamp_or_marker s)
            else map_of e ''focus_time'' = Some (PyStr ''N/A'')))))
   \<and> (parse_userassist p u hive = Some entries \<longrightarrow>
      (\<exists>reg ks parts. hive = Inr reg \<and> reg_userassist reg = Some ks
         \<and> entries = concat parts
         \<and> list_all2 (\<lambda>k es. \<forall>e\<in>set es.
              (\<exists>s. map_of e ''last_execution'' = Some (PyStr s) \<and> timestamp_or_marker s)
              \<and> map_of e ''guid'' = Some (PyStr (gk_name k))
              \<and> (select_win7_format k = Inr True
                   \<and> (\<exists>s. map_of e ''focus_time'' = Some (PyStr s) \<and> timestamp_or_marker s)
                 \<or> select_win7_format k = Inr False
                   \<and> map_of e ''focus_time'' = Some (PyStr ''N/A''))) ks parts))
   \<and> ((\<forall>k\<in>set ks. select_win7_format k = Inr True)
       \<and> parse_userassist p u (Inr \<lparr>reg_userassist = Some ks\<rparr>) = Some entries \<longrightarrow>
      (\<forall>e\<in>set entries.
         \<exists>s. map_of e ''focus_time'' = Some (PyStr s) \<and> timestamp_or_marker s))"
proof -
  have a: "count_values_loop u g p w vs acc = (out, exc) \<longrightarrow>
      exc = None \<and> (\<exists>new. out = acc @ new \<and> (\<forall>e\<in>set new.
         (\<exists>s. map_of e ''last_execution'' = Some (PyStr s) \<and> timestamp_or_marker s)
         \<and> (if w then (\<exists>s. map_of e ''focus_time'' = Some (PyStr s) \<and> timestamp_or_marker s)
            else map_of e ''focus_time'' = Some (PyStr ''N/A''))))"
  proof
    assume "count_values_loop u g p w vs acc = (out, exc)"
    then have o: "out = acc @ concat (map (value_records u g p w) vs)" and x: "exc = None"
      unfolding count_values_loop_records by simp_all
    have "\<forall>e\<in>set (concat (map (value_records u g p w) vs)).
         (\<exists>s. map_of e ''last_execution'' = Some (PyStr s) \<and> timestamp_or_marker s)
         \<and> (if w then (\<exists>s. map_of e ''focus_time'' = Some (PyStr s) \<and> timestamp_or_marker s)
            else map_of e ''focus_time'' = Some (PyStr ''N/A''))"
    proof
      fix e assume "e \<in> set (concat (map (value_records u g p w) vs))"
      then obtain v where "e \<in> set (value_records u g p w v)" by auto
      from value_records_layout [OF this]
      show "(\<exists>s. map_of e ''last_execution'' = Some (PyStr s) \<and> timestamp_or_marker s)
         \<and> (if w then (\<exists>s. map_of e ''focus_time'' = Some (PyStr s) \<and> timestamp_or_marker s)
            else map_of e ''focus_time'' = Some (PyStr ''N/A''))"
        by simp
    qed
    then show "exc = None \<and> (\<exists>new. out = acc @ new \<and> (\<forall>e\<in>set new.
         (\<exists>s. map_of e ''last_execution'' = Some (PyStr s) \<and> timestamp_or_marker s)
         \<and> (if w then (\<exists>s. map_of e ''focus_time'' = Some (PyStr s) \<and> timestamp_or_marker s)
            else map_of e ''focus_time'' = Some (PyStr ''N/A''))))"
      using o x by blast
  qed
  let ?Q = "\<lambda>k es. \<forall>e\<in>set es.
              (\<exists>s. map_of e ''last_execution'' = Some (PyStr s) \<and> timestamp_or_marker s)
              \<and> map_of e ''guid'' = Some (PyStr (gk_name k))
              \<and> (select_win7_format k = Inr True
                   \<and> (\<exists>s. map_of e ''focus_time'' = Some (PyStr s) \<and> timestamp_or_marker s)
                 \<or> select_win7_format k = Inr False
                   \<and> map_of e ''focus_time'' = Some (PyStr ''N/A''))"
  have q: "?Q k (key_records u p k)" for k
  proof
    fix e assume "e \<in> set (key_records u p k)"
    from key_records_layout [OF this]
    show "(\<exists>s. map_of e ''last_execution'' = Some (PyStr s) \<and> timestamp_or_marker s)
              \<and> map_of e ''guid'' = Some (PyStr (gk_name k))
              \<and> (select_win7_format k = Inr True
                   \<and> (\<exists>s. map_of e ''focus_time'' = Some (PyStr s) \<and> timestamp_or_marker s)
                 \<or> select_win7_format k = Inr False
                   \<and> map_of e ''focus_time'' = Some (PyStr ''N/A''))"
      unfolding select_win7_format_version by (cases "version_is_win7 k") simp_all
  qed
  have b: "parse_userassist p u hive = Some entries \<longrightarrow>
      (\<exists>reg ks parts. hive = Inr reg \<and> reg_userassist reg = Some ks
         \<and> entries = concat parts \<and> list_all2 ?Q ks parts)"
  proof
    assume "parse_userassist p u hive = Some entries"
    then obtain reg ks where h: "hive = Inr reg" "reg_userassist reg = Some ks"
      "entries = concat (map (key_records u p) ks)"
      unfolding parse_userassist_records by (auto split: sum.splits option.splits)
    have "list_all2 ?Q ks (map (key_records u p) ks)"
      unfolding list_all2_map2 by (rule list_all2_refl) (rule q)
    then show "\<exists>reg ks parts. hive = Inr reg \<and> reg_userassist reg = Some ks
         \<and> entries = concat parts \<and> list_all2 ?Q ks parts"
      using h by blast
  qed
  have c: "(\<forall>k\<in>set ks. select_win7_format k = Inr True)
       \<and> parse_userassist p u (Inr \<lparr>reg_userassist = Some ks\<rparr>) = Some entries \<longrightarrow>
      (\<forall>e\<in>set entries.
         \<exists>s. map_of e ''focus_time'' = Some (PyStr s) \<and> timestamp_or_marker s)"
  proof (intro impI ballI)
    fix e
    assume h: "(\<forall>k\<in>set ks. select_win7_format k = Inr True)
       \<and> parse_userassist p u (Inr \<lparr>reg_userassist = Some ks\<rparr>) = Some entries"
      and e: "e \<in> set entries"
    from h have "entries = concat (map (key_records u p) ks)"
      unfolding parse_userassist_records by simp
    then obtain k where k: "k \<in> set ks" "e \<in> set (key_records u p k)" using e by auto
    then have "version_is_win7 k" using h unfolding select_win7_format_version by simp
    then show "\<exists>s. map_of e ''focus_time'' = Some (PyStr s) \<and> timestamp_or_marker s"
      using key_records_layout [OF k(2)] by simp
  qed
  show ?thesis using a b c by blast
qed

text \<open>
  Claim C10. A value decoded under the XP (Legacy) layout gets the focus time \<^verbatim>\<open>'N/A'\<close>
  in its record: for the dictionary \<^verbatim>\<open>parse_userassist_entry\<close> returns, for every record
  the loop over a \<^verbatim>\<open>Count\<close> key's values appends, and for every record of a hive whose GUID
  keys all select the XP layout. \<^verbatim>\<open>'N/A'\<close> is no timestamp, not \<^verbatim>\<open>"Never"\<close> and no invalid
  marker.
\<close>

theorem legacy_focus_time:
  "(parse_userassist_entry data False = Inr (Some parsed) \<longrightarrow>
      (\<exists>entry. make_entry u n g p parsed = Inr entry
         \<and> map_of entry ''focus_time'' = Some (PyStr ''N/A'')))
   \<and> (count_values_loop u g p False vs acc = (out, exc) \<longrightarrow>
      exc = None \<and> (\<exists>new. out = acc @ new
         \<and> (\<forall>e\<in>set new. map_of e ''focus_time'' = Some (PyStr ''N/A''))))
   \<and> ((\<forall>k\<in>set ks. select_win7_format k = Inr False)
       \<and> parse_userassist p u (Inr \<lparr>reg_userassist = Some ks\<rparr>) = Some entries \<longrightarrow>
      (\<forall>e\<in>set entries. map_of e ''focus_time'' = Some (PyStr ''N/A'')))
   \<and> \<not> is_utc_timestamp ''N/A'' \<and> ''N/A'' \<noteq> ''Never'' \<and> \<not> is_invalid_marker ''N/A''"
proof -
  have a: "parse_userassist_entry data False = Inr (Some parsed) \<longrightarrow>
      (\<exists>entry. make_entry u n g p parsed = Inr entry
         \<and> map_of entry ''focus_time'' = Some (PyStr ''N/A''))"
    using parse_xp_shape [of data parsed] by (auto simp: make_entry_xp)
  have b: "count_values_loop u g p False vs acc = (out, exc) \<longrightarrow>
      exc = None \<and> (\<exists>new. out = acc @ new
         \<and> (\<forall>e\<in>set new. map_of e ''focus_time'' = Some (PyStr ''N/A'')))"
    unfolding count_values_loop_records using value_records_xp_focus by auto
  have c: "(\<forall>k\<in>set ks. select_win7_format k = Inr False)
       \<and> parse_userassist p u (Inr \<lparr>reg_userassist = Some ks\<rparr>) = Some entries \<longrightarrow>
      (\<forall>e\<in>set entries. map_of e ''focus_time'' = Some (PyStr ''N/A''))"
    unfolding parse_userassist_records select_win7_format_version
    using key_records_xp_focus by auto
  show ?thesis using a b c not_applicable_marker(1-3) by blast
qed

theorem emitted_fields_witness:
  "count_values_loop ''bob'' ''{CEBFF5CD}'' ''C:/Users/bob/NTUSER.DAT'' True
     [\<lparr>rv_name = ''abgrcnq.rkr'',
       rv_data = [0, 0, 0, 0, 3, 0, 0, 0, 0, 0, 0, 0, 16, 39, 0, 0] @ replicate 44 0
                 @ [0, 0, 0, 0, 0, 0, 216, 1] @ replicate 4 0\<rparr>] []
   = ([[(''username'', PyStr ''bob''), (''name'', PyStr ''notepad.exe''),
        (''last_execution'', PyStr ''2022-01-02 17:41:40''), (''guid'', PyStr ''{CEBFF5CD}''),
        (''count'', PyInt 3), (''focus_time'', PyStr ''1970-01-01 00:00:10''),
        (''source_file'', PyStr ''C:/Users/bob/NTUSER.DAT'')]], None)
   \<and> parse_userassist ''C:/Users/bob/NTUSER.DAT'' ''bob''
     (Inr \<lparr>reg_userassist = Some
        [\<lparr>gk_name = ''{CEBFF5CD}'', gk_version = Some 5,
          gk_count = Some [\<lparr>rv_name = ''abgrcnq.rkr'',
            rv_data = [0, 0, 0, 0, 3, 0, 0, 0, 0, 0, 0, 0, 16, 39, 0, 0] @ replicate 44 0
                      @ [0, 0, 0, 0, 0, 0, 216, 1] @ replicate 4 0\<rparr>]\<rparr>,
         \<lparr>gk_name = ''{75048700}'', gk_version = Some 3,
          gk_count = Some [\<lparr>rv_name = ''pnyp.rkr'',
            rv_data = [0, 0, 0, 0, 5, 0, 0, 0] @ replicate 8 0\<rparr>]\<rparr>]\<rparr>)
   = Some [[(''username'', PyStr ''bob''), (''name'', PyStr ''notepad.exe''),
            (''last_execution'', PyStr ''2022-01-02 17:41:40''), (''guid'', PyStr ''{CEBFF5CD}''),
            (''count'', PyInt 3), (''focus_time'', PyStr ''1970-01-01 00:00:10''),
            (''source_file'', PyStr ''C:/Users/bob/NTUSER.DAT'')],
           [(''username'', PyStr ''bob''), (''name'', PyStr ''calc.exe''),
            (''last_execution'', PyStr ''Never''), (''guid'', PyStr ''{75048700}''),
            (''count'', PyInt 5), (''focus_time'', PyStr ''N/A''),
            (''source_file'', PyStr ''C:/Users/bob/NTUSER.DAT'')]]
   \<and> select_win7_format \<lparr>gk_name = ''{CEBFF5CD}'', gk_version = Some 5,
          gk_count = Some [\<lparr>rv_name = ''abgrcnq.rkr'',
            rv_data = [0, 0, 0, 0, 3, 0, 0, 0, 0, 0, 0, 0, 16, 39, 0, 0] @ replicate 44 0
                      @ [0, 0, 0, 0, 0, 0, 216, 1] @ replicate 4 0\<rparr>]\<rparr> = Inr True
   \<and> select_win7_format \<lparr>gk_name = ''{75048700}'', gk_version = Some 3,
          gk_count = Some [\<lparr>rv_name = ''pnyp.rkr'',
            rv_data = [0, 0, 0, 0, 5, 0, 0, 0] @ replicate 8 0\<rparr>]\<rparr> = Inr False
   \<and> parse_userassist ''C:/Users/bob/NTUSER.DAT'' ''bob''
     (Inr \<lparr>reg_userassist = Some
        [\<lparr>gk_name = ''{CEBFF5CD}'', gk_version = Some 5,
          gk_count = Some [\<lparr>rv_name = ''abgrcnq.rkr'',
            rv_data = [0, 0, 0, 0, 3, 0, 0, 0, 0, 0, 0, 0, 16, 39, 0, 0] @ replicate 44 0
                      @ [0, 0, 0, 0, 0, 0, 216, 1] @ replicate 4 0\<rparr>]\<rparr>]\<rparr>)
   = Some [[(''username'', PyStr ''bob''), (''name'', PyStr ''notepad.exe''),
            (''last_execution'', PyStr ''2022-01-02 17:41:40''), (''guid'', PyStr ''{CEBFF5CD}''),
            (''count'', PyInt 3), (''focus_time'', PyStr ''1970-01-01 00:00:10''),
            (''source_file'', PyStr ''C:/Users/bob/NTUSER.DAT'')]]
   \<and> timestamp_or_marker ''2022-01-02 17:41:40''
   \<and> timestamp_or_marker ''1970-01-01 00:00:10''
   \<and> timestamp_or_marker ''Never''"
proof -
  let ?p = "''C:/Users/bob/NTUSER.DAT''"
  let ?v1 = "\<lparr>rv_name = ''abgrcnq.rkr'',
       rv_data = [0, 0, 0, 0, 3, 0, 0, 0, 0, 0, 0, 0, 16, 39, 0, 0] @ replicate 44 0
                 @ [0, 0, 0, 0, 0, 0, 216, 1] @ replicate 4 0\<rparr>"
  let ?v2 = "\<lparr>rv_name = ''pnyp.rkr'', rv_data = [0, 0, 0, 0, 5, 0, 0, 0] @ replicate 8 0\<rparr>"
  let ?k1 = "\<lparr>gk_name = ''{CEBFF5CD}'', gk_version = Some 5, gk_count = Some [?v1]\<rparr>"
  let ?k2 = "\<lparr>gk_name = ''{75048700}'', gk_version = Some 3, gk_count = Some [?v2]\<rparr>"
  let ?e1 = "[(''username'', PyStr ''bob''), (''name'', PyStr ''notepad.exe''),
            (''last_execution'', PyStr ''2022-01-02 17:41:40''), (''guid'', PyStr ''{CEBFF5CD}''),
            (''count'', PyInt 3), (''focus_time'', PyStr ''1970-01-01 00:00:10''),
            (''source_file'', PyStr ?p)]"
  let ?e2 = "[(''username'', PyStr ''bob''), (''name'', PyStr ''calc.exe''),
            (''last_execution'', PyStr ''Never''), (''guid'', PyStr ''{75048700}''),
            (''count'', PyInt 5), (''focus_time'', PyStr ''N/A''),
            (''source_file'', PyStr ?p)]"
  have loop: "count_values_loop ''bob'' ''{CEBFF5CD}'' ?p True [?v1] [] = ([?e1], None)"
    by code_simp
  have drv: "parse_userassist ?p ''bob'' (Inr \<lparr>reg_userassist = Some [?k1, ?k2]\<rparr>)
               = Some [?e1, ?e2]"
    by code_simp
  have drv1: "parse_userassist ?p ''bob'' (Inr \<lparr>reg_userassist = Some [?k1]\<rparr>) = Some [?e1]"
    by code_simp
  have sel1: "select_win7_format ?k1 = Inr True" by code_simp
  let ?Q = "\<lambda>k es. \<forall>e\<in>set es.
              (\<exists>s. map_of e ''last_execution'' = Some (PyStr s) \<and> timestamp_or_marker s)
              \<and> map_of e ''guid'' = Some (PyStr (gk_name k))
              \<and> (select_win7_format k = Inr True
                   \<and> (\<exists>s. map_of e ''focus_time'' = Some (PyStr s) \<and> timestamp_or_marker s)
                 \<or> select_win7_format k = Inr False
                   \<and> map_of e ''focus_time'' = Some (PyStr ''N/A''))"
  note one = emitted_fields [of "''bob''" "''{CEBFF5CD}''" ?p True "[?v1]" "[]" "[?e1]" None
      "Inr \<lparr>reg_userassist = Some [?k1]\<rparr>" "[?e1]" "[?k1]"]
  note two = emitted_fields [of "''bob''" "''{CEBFF5CD}''" ?p True "[?v1]" "[]" "[?e1]" None
      "Inr \<lparr>reg_userassist = Some [?k1, ?k2]\<rparr>" "[?e1, ?e2]" "[?k1]"]
  have l: "timestamp_or_marker ''2022-01-02 17:41:40''"
    using one [THEN conjunct1] loop by simp
  have f: "timestamp_or_marker ''1970-01-01 00:00:10''"
    using one [THEN conjunct2, THEN conjunct2] sel1 drv1 by simp
  from two [THEN conjunct2, THEN conjunct1] drv
  obtain reg ks parts where parts:
    "Inr \<lparr>reg_userassist = Some [?k1, ?k2]\<rparr> = (Inr reg :: exn + registry)"
    "reg_userassist reg = Some ks" "[?e1, ?e2] = concat parts" "list_all2 ?Q ks parts"
    by blast
  from parts(1,2) have ks: "ks = [?k1, ?k2]" by auto
  from parts(4) obtain a b where ab: "parts = [a, b]" "?Q ?k1 a" "?Q ?k2 b"
    unfolding ks by (auto simp: list_all2_Cons1)
  have "?e2 \<in> set (concat parts)" unfolding parts(3) [symmetric] by simp
  then have "?e2 \<in> set a \<or> ?e2 \<in> set b" unfolding ab(1) by simp
  moreover have "?e2 \<notin> set a" using ab(2) by auto
  ultimately have "?e2 \<in> set b" by blast
  then have n: "timestamp_or_marker ''Never''" and na: "select_win7_format ?k2 = Inr False"
    using ab(3) not_applicable_marker(4) by auto
  show ?thesis using loop drv drv1 sel1 na l f n by blast
qed

text \<open>
  Claim C8 as stated fails on a value under the XP layout: the record's focus time is
  \<^verbatim>\<open>'N/A'\<close>, which is no timestamp, not \<^verbatim>\<open>"Never"\<close> and none of the two invalid markers.
\<close>

theorem emitted_fields_counterexample:
  "parse_userassist ''C:/Users/bob/NTUSER.DAT'' ''bob''
     (Inr \<lparr>reg_userassist = Some [\<lparr>gk_name = ''{75048700}'', gk_version = None,
        gk_count = Some [\<lparr>rv_name = ''abgrcnq.rkr'',
          rv_data = [0, 0, 0, 0, 5, 0, 0, 0] @ replicate 8 0\<rparr>]\<rparr>]\<rparr>)
   = Some [[(''username'', PyStr ''bob''), (''name'', PyStr ''notepad.exe''),
            (''last_execution'', PyStr ''Never''), (''guid'', PyStr ''{75048700}''),
            (''count'', PyInt 5), (''focus_time'', PyStr ''N/A''),
            (''source_file'', PyStr ''C:/Users/bob/NTUSER.DAT'')]]
   \<and> \<not> timestamp_or_marker ''N/A''"
proof -
  have "parse_userassist ''C:/Users/bob/NTUSER.DAT'' ''bob''
     (Inr \<lparr>reg_userassist = Some [\<lparr>gk_name = ''{75048700}'', gk_version = None,
        gk_count = Some [\<lparr>rv_name = ''abgrcnq.rkr'',
          rv_data = [0, 0, 0, 0, 5, 0, 0, 0] @ replicate 8 0\<rparr>]\<rparr>]\<rparr>)
   = Some [[(''username'', PyStr ''bob''), (''name'', PyStr ''notepad.exe''),
            (''last_execution'', PyStr ''Never''), (''guid'', PyStr ''{75048700}''),
            (''count'', PyInt 5), (''focus_time'', PyStr ''N/A''),
            (''source_file'', PyStr ''C:/Users/bob/NTUSER.DAT'')]]"
    by code_simp
  then show ?thesis using not_applicable_marker(4) by blast
qed

theorem legacy_focus_time_witness:
  "parse_userassist_entry ([0, 0, 0, 0, 5, 0, 0, 0] @ replicate 8 0) False
     = Inr (Some [(''count'', PyInt 5), (''last_execution'', PyStr ''Never'')])
   \<and> (\<exists>entry. make_entry ''bob'' ''notepad.exe'' ''{75048700}'' ''C:/Users/bob/NTUSER.DAT''
          [(''count'', PyInt 5), (''last_execution'', PyStr ''Never'')] = Inr entry
        \<and> map_of entry ''focus_time'' = Some (PyStr ''N/A''))
   \<and> count_values_loop ''bob'' ''{75048700}'' ''C:/Users/bob/NTUSER.DAT'' False
        [\<lparr>rv_name = ''abgrcnq.rkr'', rv_data = [0, 0, 0, 0, 5, 0, 0, 0] @ replicate 8 0\<rparr>] []
     = ([] @ [[(''username'', PyStr ''bob''), (''name'', PyStr ''notepad.exe''),
            (''last_execution'', PyStr ''Never''), (''guid'', PyStr ''{75048700}''),
            (''count'', PyInt 5), (''focus_time'', PyStr ''N/A''),
            (''source_file'', PyStr ''C:/Users/bob/NTUSER.DAT'')]], None)
   \<and> select_win7_format \<lparr>gk_name = ''{75048700}'', gk_version = None,
        gk_count = Some [\<lparr>rv_name = ''abgrcnq.rkr'',
          rv_data = [0, 0, 0, 0, 5, 0, 0, 0] @ replicate 8 0\<rparr>]\<rparr> = Inr False
   \<and> parse_userassist ''C:/Users/bob/NTUSER.DAT'' ''bob''
     (Inr \<lparr>reg_userassist = Some [\<lparr>gk_name = ''{75048700}'', gk_version = None,
        gk_count = Some [\<lparr>rv_name = ''abgrcnq.rkr'',
          rv_data = [0, 0, 0, 0, 5, 0, 0, 0] @ replicate 8 0\<rparr>]\<rparr>]\<rparr>)
   = Some [[(''username'', PyStr ''bob''), (''name'', PyStr ''notepad.exe''),
            (''last_execution'', PyStr ''Never''), (''guid'', PyStr ''{75048700}''),
            (''count'', PyInt 5), (''focus_time'', PyStr ''N/A''),
            (''source_file'', PyStr ''C:/Users/bob/NTUSER.DAT'')]]
   \<and> map_of [(''username'', PyStr ''bob''), (''name'', PyStr ''notepad.exe''),
            (''last_execution'', PyStr ''Never''), (''guid'', PyStr ''{75048700}''),
            (''count'', PyInt 5), (''focus_time'', PyStr ''N/A''),
            (''source_file'', PyStr ''C:/Users/bob/NTUSER.DAT'')] ''focus_time''
       = Some (PyStr ''N/A'')"
proof -
  let ?data = "[0, 0, 0, 0, 5, 0, 0, 0] @ replicate 8 (0::byte)"
  let ?parsed = "[(''count'', PyInt 5), (''last_execution'', PyStr ''Never'')]"
  let ?v = "\<lparr>rv_name = ''abgrcnq.rkr'', rv_data = ?data\<rparr>"
  let ?k = "\<lparr>gk_name = ''{75048700}'', gk_version = None, gk_count = Some [?v]\<rparr>"
  let ?e = "[(''username'', PyStr ''bob''), (''name'', PyStr ''notepad.exe''),
            (''last_execution'', PyStr ''Never''), (''guid'', PyStr ''{75048700}''),
            (''count'', PyInt 5), (''focus_time'', PyStr ''N/A''),
            (''source_file'', PyStr ''C:/Users/bob/NTUSER.DAT'')]"
  have p: "parse_userassist_entry ?data False = Inr (Some ?parsed)" by code_simp
  have l: "count_values_loop ''bob'' ''{75048700}'' ''C:/Users/bob/NTUSER.DAT'' False [?v] []
      = ([] @ [?e], None)" by code_simp
  have s: "select_win7_format ?k = Inr False" by code_simp
  have ev: "parse_userassist ''C:/Users/bob/NTUSER.DAT'' ''bob'' (Inr \<lparr>reg_userassist = Some [?k]\<rparr>)
      = Some [?e]" by code_simp
  note t = legacy_focus_time [of ?data ?parsed "''bob''" "''notepad.exe''" "''{75048700}''"
      "''C:/Users/bob/NTUSER.DAT''" "[?v]" "[]" "[] @ [?e]" None "[?k]" "[?e]"]
  have a: "\<exists>entry. make_entry ''bob'' ''notepad.exe'' ''{75048700}'' ''C:/Users/bob/NTUSER.DAT''
          ?parsed = Inr entry \<and> map_of entry ''focus_time'' = Some (PyStr ''N/A'')"
    using t p by blast
  have "\<forall>e\<in>set [?e]. map_of e ''focus_time'' = Some (PyStr ''N/A'')"
    using t s ev by simp
  then have b: "map_of ?e ''focus_time'' = Some (PyStr ''N/A'')" by simp
  show ?thesis using p a l s ev b by blast
qed

end
